theory Spec2Isabelle
  imports Complex_Main "HOL-Library.Sublist"
begin

section \<open>Python values and errors\<close>

text \<open>
  The values \<open>stop_after\<close> can hold: \<open>None\<close> (the default), an \<open>int\<close>, a \<open>bool\<close>
  (whose type is \<open>bool\<close>, not \<open>int\<close>), or a value of any other type, kept by its
  printed form.
\<close>

datatype pyval = PyNone | PyInt int | PyBool bool | PyOther string

datatype error = AttributeError | AssertionError | ZeroDivisionError | ValueError

section \<open>Batch sources\<close>

text \<open>
  The transforms, image folders, samplers and loaders that \<open>torch_loader\<close> builds.
  \<open>ResizeScaled size\<close> is \<open>transforms.Resize(int(size*1.14))\<close>, kept with its argument
  unevaluated. Float literals are the rationals they denote; no arithmetic is done on them.
\<close>

datatype tfm =
    RandomResizedCrop nat rat rat
  | RandomHorizontalFlip
  | ToTensor
  | Normalize
  | ResizeScaled nat
  | CenterCrop nat

record image_folder =
  folder_root :: string
  transform :: "tfm list"

datatype sampler = DistributedSampler image_folder

record loader_cfg =
  dl_dataset :: image_folder
  dl_batch_size :: nat
  dl_shuffle :: bool
  dl_num_workers :: int
  dl_pin_memory :: bool
  dl_sampler :: "sampler option"

text \<open>
  A \<open>DataLoader\<close>: its configuration and \<open>batches\<close>, the finite sequence of
  (input, target) pairs that \<open>iter(loader)\<close> produces. \<open>len(loader)\<close> is the number of
  batches.
\<close>

record ('i, 't) data_loader = loader_cfg +
  batches :: "('i \<times> 't) list"

definition loader_len :: "('i, 't) data_loader \<Rightarrow> nat" where
  "loader_len l = length (batches l)"

section \<open>DataPrefetcher\<close>

text \<open>
  \<open>Cuda n x\<close> is the device tensor that the \<open>n\<close>-th transfer issued on a copy stream
  produces from the host tensor \<open>x\<close> (\<open>x.cuda(async=True)\<close> inside
  \<open>with torch.cuda.stream(self.stream)\<close>). The two copies of one \<open>preload\<close> (input and
  target of one batch) are one transfer.
\<close>

datatype 'a cuda = Cuda nat 'a

fun ticket :: "'a cuda \<Rightarrow> nat" where
  "ticket (Cuda n x) = n"

fun contents :: "'a cuda \<Rightarrow> 'a" where
  "contents (Cuda n x) = x"

text \<open>
  What can be observed of an iteration, in program order: a transfer issued on the copy
  stream (lines 145-147), \<open>torch.cuda.current_stream().wait_stream(self.stream)\<close>
  (line 154), and a batch handed to the consumer (line 159).
\<close>

datatype ('i, 't) event =
    Issue nat
  | Wait
  | Yield "'i cuda" "'t cuda option"

text \<open>
  The object. \<open>stream\<close> is the copy stream, as the number of transfers issued on it so
  far. \<open>loaditer\<close> is the rest of the source iterator; the attribute does not exist
  before \<open>__iter__\<close> has run.
\<close>

record ('i, 't) prefetcher =
  loader :: "('i, 't) data_loader"
  dataset :: image_folder
  stream :: nat
  stop_after :: pyval
  next_input :: "'i cuda option"
  next_target :: "'t cuda option"
  loaditer :: "('i \<times> 't) list option"

definition DataPrefetcher_init ::
  "('i, 't) data_loader \<Rightarrow> pyval \<Rightarrow> ('i, 't) prefetcher" where
  "DataPrefetcher_init ld cap =
     \<lparr>loader = ld, dataset = dl_dataset ld, stream = 0, stop_after = cap,
      next_input = None, next_target = None, loaditer = None\<rparr>"

definition DataPrefetcher_len :: "('i, 't) prefetcher \<Rightarrow> nat" where
  "DataPrefetcher_len s = loader_len (loader s)"

text \<open>
  \<open>preload\<close>: \<open>next(self.loaditer)\<close> raises \<open>AttributeError\<close> when the attribute is
  missing; \<open>StopIteration\<close> is caught and clears both slots; otherwise the batch is
  copied on the copy stream.
\<close>

definition preload ::
  "('i, 't) prefetcher \<Rightarrow> error + (('i, 't) event list \<times> ('i, 't) prefetcher)" where
  "preload s =
     (case loaditer s of
        None \<Rightarrow> Inl AttributeError
      | Some [] \<Rightarrow> Inr ([], s\<lparr>next_input := None, next_target := None\<rparr>)
      | Some ((x, y) # rest) \<Rightarrow>
          Inr ([Issue (stream s)],
               s\<lparr>loaditer := Some rest,
                 next_input := Some (Cuda (stream s) x),
                 next_target := Some (Cuda (stream s) y),
                 stream := Suc (stream s)\<rparr>))"

text \<open>\<open>type(self.stop_after) is int and (count > self.stop_after)\<close>\<close>

fun cap_reached :: "pyval \<Rightarrow> int \<Rightarrow> bool" where
  "cap_reached (PyInt k) count = (count > k)"
| "cap_reached _ count = False"

text \<open>
  The \<open>while\<close> loop of \<open>__iter__\<close> (lines 153-161), entered with the current
  \<open>count\<close>. The generator is taken by what it does when the consumer runs it to its
  end: the result is the events of the loop, in order, and the object when the generator
  finishes. A consumer that abandons the generator at a yield has seen a prefix of these
  events. The copies themselves are taken to succeed.
\<close>

function iter_loop ::
  "('i, 't) prefetcher \<Rightarrow> int \<Rightarrow> error + (('i, 't) event list \<times> ('i, 't) prefetcher)" where
  "iter_loop s count =
     (case next_input s of
        None \<Rightarrow> Inr ([], s)
      | Some input \<Rightarrow>
          (case preload s of
             Inl e \<Rightarrow> Inl e
           | Inr (evs, s') \<Rightarrow>
               (if cap_reached (stop_after s') (count + 1)
                then Inr (Wait # evs @ [Yield input (next_target s)], s')
                else (case iter_loop s' (count + 1) of
                        Inl e \<Rightarrow> Inl e
                      | Inr (evs2, s'') \<Rightarrow>
                          Inr (Wait # evs @ [Yield input (next_target s)] @ evs2, s'')))))"
  by pat_completeness auto
termination
proof (relation "measure (\<lambda>(s, count).
         (case loaditer s of None \<Rightarrow> 0 | Some r \<Rightarrow> length r)
         + (if next_input s = None then 0 else 1))")
  show "wf (measure (\<lambda>(s :: ('i, 't) prefetcher, count :: int).
         (case loaditer s of None \<Rightarrow> 0 | Some r \<Rightarrow> length r)
         + (if next_input s = None then 0 else 1)))"
    by simp
next
  fix s :: "('i, 't) prefetcher" and count :: int and input x2 evs s'
  assume "next_input s = Some input" and "preload s = Inr x2" and "(evs, s') = x2"
  then show "((s', count + 1), s, count) \<in> measure (\<lambda>(s, count).
         (case loaditer s of None \<Rightarrow> 0 | Some r \<Rightarrow> length r)
         + (if next_input s = None then 0 else 1))"
    by (auto simp: preload_def split: option.splits list.splits)
qed

declare iter_loop.simps [simp del]

text \<open>\<open>__iter__\<close>: a fresh source iterator, the first \<open>preload\<close>, then the loop.\<close>

definition DataPrefetcher_iter ::
  "('i, 't) prefetcher \<Rightarrow> error + (('i, 't) event list \<times> ('i, 't) prefetcher)" where
  "DataPrefetcher_iter s =
     (case preload (s\<lparr>loaditer := Some (batches (loader s))\<rparr>) of
        Inl e \<Rightarrow> Inl e
      | Inr (evs, s1) \<Rightarrow>
          (case iter_loop s1 0 of
             Inl e \<Rightarrow> Inl e
           | Inr (evs2, s2) \<Rightarrow> Inr (evs @ evs2, s2)))"


section \<open>Observing an iteration\<close>

text \<open>The batches handed to the consumer, in order.\<close>

fun yielded :: "('i, 't) event list \<Rightarrow> ('i cuda \<times> 't cuda option) list" where
  "yielded [] = []"
| "yielded (Yield a b # es) = (a, b) # yielded es"
| "yielded (Issue n # es) = yielded es"
| "yielded (Wait # es) = yielded es"

text \<open>The host batch a yielded pair of device tensors was copied from.\<close>

fun host_batch :: "'i cuda \<times> 't cuda option \<Rightarrow> ('i \<times> 't) option" where
  "host_batch (a, Some b) = Some (contents a, contents b)"
| "host_batch (a, None) = None"

text \<open>The device copies of a list of source batches, by transfers numbered from \<open>n\<close>.\<close>

fun copies :: "nat \<Rightarrow> ('i \<times> 't) list \<Rightarrow> ('i cuda \<times> 't cuda option) list" where
  "copies n [] = []"
| "copies n (b # bs) = (Cuda n (fst b), Some (Cuda n (snd b))) # copies (Suc n) bs"

fun is_Issue :: "('i, 't) event \<Rightarrow> bool" where
  "is_Issue (Issue n) = True"
| "is_Issue _ = False"

fun is_Wait :: "('i, 't) event \<Rightarrow> bool" where
  "is_Wait Wait = True"
| "is_Wait _ = False"

text \<open>Transfers issued minus waits performed, over a stretch of events.\<close>

definition in_flight :: "('i, 't) event list \<Rightarrow> int" where
  "in_flight es = int (length (filter is_Issue es)) - int (length (filter is_Wait es))"

text \<open>
  The transfers whose issue is followed by a \<open>wait_stream\<close>: the main stream is ordered
  after them.
\<close>

fun resident :: "('i, 't) event list \<Rightarrow> nat list" where
  "resident [] = []"
| "resident (Issue n # es) = (if list_ex is_Wait es then n # resident es else resident es)"
| "resident (Wait # es) = resident es"
| "resident (Yield a b # es) = resident es"

fun is_int :: "pyval \<Rightarrow> bool" where
  "is_int (PyInt k) = True"
| "is_int _ = False"

text \<open>
  The events of the loop entered with batch \<open>b\<close> preloaded by transfer \<open>n\<close>, \<open>rest\<close>
  left in the source and \<open>c\<close> batches counted so far; and the events of a whole
  iteration.
\<close>

fun loop_trace ::
  "pyval \<Rightarrow> nat \<Rightarrow> 'i \<times> 't \<Rightarrow> ('i \<times> 't) list \<Rightarrow> int \<Rightarrow> ('i, 't) event list" where
  "loop_trace cap n b [] c = [Wait, Yield (Cuda n (fst b)) (Some (Cuda n (snd b)))]"
| "loop_trace cap n b (b' # rest) c =
     [Wait, Issue (Suc n), Yield (Cuda n (fst b)) (Some (Cuda n (snd b)))]
     @ (if cap_reached cap (c + 1) then [] else loop_trace cap (Suc n) b' rest (c + 1))"

fun full_trace :: "pyval \<Rightarrow> nat \<Rightarrow> ('i \<times> 't) list \<Rightarrow> ('i, 't) event list" where
  "full_trace cap n [] = []"
| "full_trace cap n (b # rest) = Issue n # loop_trace cap n b rest 0"

text \<open>Iterating the same object a second time, after the first iteration has finished.\<close>

definition iterate_twice ::
  "('i, 't) prefetcher \<Rightarrow>
   error + (('i cuda \<times> 't cuda option) list \<times> ('i cuda \<times> 't cuda option) list)" where
  "iterate_twice s =
     (case DataPrefetcher_iter s of
        Inl e \<Rightarrow> Inl e
      | Inr (evs, s') \<Rightarrow>
          (case DataPrefetcher_iter s' of
             Inl e \<Rightarrow> Inl e
           | Inr (evs2, s'') \<Rightarrow> Inr (yielded evs, yielded evs2)))"

text \<open>A loader with the given batches, for concrete runs.\<close>

definition plain_loader :: "('i \<times> 't) list \<Rightarrow> ('i, 't) data_loader" where
  "plain_loader bs =
     \<lparr>dl_dataset = \<lparr>folder_root = ''data/train'', transform = [ToTensor]\<rparr>,
      dl_batch_size = 1, dl_shuffle = False, dl_num_workers = 0,
      dl_pin_memory = True, dl_sampler = None, batches = bs\<rparr>"

text \<open>The transfers issued, in order.\<close>

fun issued :: "('i, 't) event list \<Rightarrow> nat list" where
  "issued [] = []"
| "issued (Issue n # es) = n # issued es"
| "issued (Wait # es) = issued es"
| "issued (Yield a b # es) = issued es"

text \<open>
  \<open>k\<close> iterations of the same object, one after the other, each run to its end: the
  events of all of them in order, and the object afterwards.
\<close>

fun run_iters ::
  "nat \<Rightarrow> ('i, 't) prefetcher \<Rightarrow> error + (('i, 't) event list \<times> ('i, 't) prefetcher)" where
  "run_iters 0 s = Inr ([], s)"
| "run_iters (Suc k) s =
     (case DataPrefetcher_iter s of
        Inl e \<Rightarrow> Inl e
      | Inr (evs, s') \<Rightarrow>
          (case run_iters k s' of
             Inl e \<Rightarrow> Inl e
           | Inr (evs2, s'') \<Rightarrow> Inr (evs @ evs2, s'')))"

section \<open>The logging callback\<close>

text \<open>
  The file object that \<open>open(path, mode, buffering)\<close> returns: how it was opened,
  whether it has been closed, and the text written through it so far. A metric value is
  kept as the text that formatting it in an f-string gives.
\<close>

record log_file =
  file_name :: string
  file_mode :: string
  file_buffering :: int
  file_closed :: bool
  written :: string


text \<open>
  \<open>ImagenetLoggingCallback\<close>. The attributes \<open>batch\<close>, \<open>epoch\<close>, \<open>f\<close> (here
  \<open>fh\<close>) and \<open>last_loss\<close> do not exist until a hook has set them.
\<close>

record callback =
  save_path :: string
  print_every :: int
  batch :: "int option"
  epoch :: "int option"
  fh :: "log_file option"
  last_loss :: "string option"

definition ImagenetLoggingCallback_init :: "string \<Rightarrow> int \<Rightarrow> callback" where
  "ImagenetLoggingCallback_init p n =
     \<lparr>save_path = p, print_every = n, batch = None, epoch = None, fh = None,
      last_loss = None\<rparr>"






definition newline :: char where
  "newline = CHR 0x0A"














section \<open>The training driver\<close>

text \<open>
  The parsed command line, with \<open>distributed\<close> and \<open>gpu\<close> that \<open>main\<close> adds. A
  \<open>save_dir\<close> is false in a condition exactly when it is the empty string (the default
  is a non-empty path). The environment: \<open>torch.backends.cudnn.enabled\<close> and
  \<open>torch.cuda.device_count()\<close>.
\<close>

record args =
  data :: string
  save_dir :: string
  arch :: string
  workers :: int
  batch_size :: int
  fp16 :: bool
  dist_url :: string
  dist_backend :: string
  world_size :: int
  rank :: int
  distributed :: bool
  gpu :: int

record env =
  cudnn_enabled :: bool
  device_count :: nat

record ('i, 't) model_data =
  path :: string
  trn_dl :: "('i, 't) prefetcher"
  val_dl :: "('i, 't) prefetcher"
  aug_dl :: "('i, 't) prefetcher option"

definition TorchModelData ::
  "string \<Rightarrow> ('i, 't) prefetcher \<Rightarrow> ('i, 't) prefetcher \<Rightarrow> ('i, 't) prefetcher option
   \<Rightarrow> ('i, 't) model_data" where
  "TorchModelData p trn val aug = \<lparr>path = p, trn_dl = trn, val_dl = val, aug_dl = aug\<rparr>"

text \<open>\<open>os.path.join\<close> with a relative second component.\<close>

definition path_join :: "string \<Rightarrow> string \<Rightarrow> string" where
  "path_join a b =
     (if a = [] then b else if last a = CHR ''/'' then a @ b else a @ ''/'' @ b)"

text \<open>
  \<open>torch.utils.data.DataLoader\<close>. \<open>read\<close> stands for the file system, the decoding
  and the batching: it gives the batches a loader of that configuration produces.
\<close>

definition DataLoader ::
  "(loader_cfg \<Rightarrow> ('i \<times> 't) list) \<Rightarrow> image_folder \<Rightarrow> nat \<Rightarrow> bool \<Rightarrow> int \<Rightarrow> bool
   \<Rightarrow> sampler option \<Rightarrow> ('i, 't) data_loader" where
  "DataLoader read ds bs sh nw pm smp =
     \<lparr>dl_dataset = ds, dl_batch_size = bs, dl_shuffle = sh, dl_num_workers = nw,
      dl_pin_memory = pm, dl_sampler = smp,
      batches = read \<lparr>dl_dataset = ds, dl_batch_size = bs, dl_shuffle = sh,
                      dl_num_workers = nw, dl_pin_memory = pm, dl_sampler = smp\<rparr>\<rparr>"

definition torch_loader ::
  "(loader_cfg \<Rightarrow> ('i \<times> 't) list) \<Rightarrow> args \<Rightarrow> string \<Rightarrow> nat \<Rightarrow> nat \<Rightarrow> rat
   \<Rightarrow> ('i, 't) model_data \<times> sampler option" where
  "torch_loader read a data_path sz bs min_scale =
     (let traindir = path_join data_path ''train'';
          valdir = path_join data_path ''val'';
          train_tfms = [RandomResizedCrop sz min_scale 1, RandomHorizontalFlip,
                        ToTensor, Normalize];
          train_dataset = \<lparr>folder_root = traindir, transform = train_tfms\<rparr>;
          train_sampler = (if distributed a then Some (DistributedSampler train_dataset)
                           else None);
          train_loader = DataLoader read train_dataset bs (train_sampler = None)
                           (workers a) True train_sampler;
          val_tfms = [ResizeScaled sz, CenterCrop sz, ToTensor, Normalize];
          val_loader = DataLoader read \<lparr>folder_root = valdir, transform = val_tfms\<rparr>
                         (bs * 2) False (workers a) True None;
          aug_loader = DataLoader read \<lparr>folder_root = valdir, transform = train_tfms\<rparr>
                         bs False (workers a) True None
      in (TorchModelData data_path
            (DataPrefetcher_init train_loader PyNone)
            (DataPrefetcher_init val_loader PyNone)
            (Some (DataPrefetcher_init aug_loader PyNone)),
          train_sampler))"

datatype sarg = SaveName string | Callbacks "callback list"

record fit_call =
  lr :: rat
  n_cycle :: nat
  cycle_len :: nat
  fit_sampler :: "sampler option"
  wds :: rat
  use_clr :: pyval
  loss_scale :: nat
  sargs :: "(string \<times> sarg) list"

text \<open>
  What the driver does to the outside, in program order: calls that carry no batch data,
  and the two calls that hand a stage's data to the learner
  (\<open>Learner.from_model_data\<close>, after which the loss and the metrics are set, and
  \<open>learner.set_data\<close>). \<open>LearnerFit\<close> is \<open>learner.fit\<close> with its arguments.
\<close>

datatype effect =
    SetDevice int
  | InitProcessGroup string string int
  | CreateModel string
  | WrapDDP
  | Half
  | SetTmpPath string
  | SetModelsPath string
  | Makedirs string
  | Print string
  | LearnerFit fit_call

datatype ('i, 't) action =
    Effect effect
  | FromModelData "('i, 't) model_data"
  | SetData "('i, 't) model_data"

definition save_args ::
  "args \<Rightarrow> string \<Rightarrow> string \<Rightarrow> effect list \<times> (string \<times> sarg) list" where
  "save_args a name sd =
     (if rank a \<noteq> 0 \<or> save_dir a = [] then ([], [])
      else ([Makedirs (sd @ ''/training_logs'')],
            [(''best_save_name'', SaveName (name @ ''_best_model'')),
             (''cycle_save_name'', SaveName name),
             (''callbacks'',
              Callbacks [ImagenetLoggingCallback_init
                           (sd @ ''/training_logs'' @ ''/'' @ name @ ''_log.txt'') 50])]))"

definition update_model_dir :: "string \<Rightarrow> effect list" where
  "update_model_dir base_dir =
     [SetTmpPath (base_dir @ ''/tmp''), Makedirs (base_dir @ ''/tmp''),
      SetModelsPath (base_dir @ ''/models''), Makedirs (base_dir @ ''/models'')]"

definition fit ::
  "args \<Rightarrow> string \<Rightarrow> rat \<Rightarrow> nat \<Rightarrow> sampler option \<Rightarrow> rat \<Rightarrow> pyval \<Rightarrow> effect list" where
  "fit a name l cl smp wd clr =
     (case save_args a name (save_dir a) of
        (made, kwargs) \<Rightarrow>
          Print (''\<newline>-- '' @ name @ '' --\<newline>'')
          # made
          @ [LearnerFit \<lparr>lr = l, n_cycle = 1, cycle_len = cl, fit_sampler = smp, wds = wd,
                         use_clr = clr, loss_scale = 1024, sargs = kwargs\<rparr>])"

text \<open>Lines 240-245 of \<open>main\<close>: the distributed set-up.\<close>

definition init_distributed ::
  "env \<Rightarrow> args \<Rightarrow> error + (effect list \<times> args)" where
  "init_distributed e a =
     (if world_size a > 1
      then (if device_count e = 0 then Inl ZeroDivisionError
            else Inr ([SetDevice (rank a mod int (device_count e)),
                       InitProcessGroup (dist_backend a) (dist_url a) (world_size a)],
                      a\<lparr>distributed := True, gpu := rank a mod int (device_count e)\<rparr>))
      else Inr ([], a\<lparr>distributed := False, gpu := 0\<rparr>))"

text \<open>The three stages of \<open>main\<close> (lines 252-268), with the arguments after set-up.\<close>

definition stages ::
  "(loader_cfg \<Rightarrow> ('i \<times> 't) list) \<Rightarrow> args \<Rightarrow> ('i, 't) action list" where
  "stages read a =
     (let (data1, train_sampler1) = torch_loader read a (data a @ ''-sz/160'') 128 256 (8 / 100);
          wd = 2 / 100000;
          (data2, train_sampler2) = torch_loader read a (data a @ ''-sz/320'') 128 256 (8 / 100);
          (data3, train_sampler3) = torch_loader read a (data a) 128 256 (8 / 100)
      in [FromModelData data1]
         @ map Effect ((if fp16 a then [Half] else [])
                       @ update_model_dir (save_dir a)
                       @ fit a ''1'' (3 / 100) 1 train_sampler1 wd PyNone)
         @ [SetData data2]
         @ map Effect (fit a ''3'' (1 / 10) 1 train_sampler2 wd PyNone)
         @ [SetData data3]
         @ map Effect (fit a ''3'' (1 / 10) 1 train_sampler3 wd PyNone
                       @ [Print ''Finished!'']))"

text \<open>
  \<open>main\<close>: the actions performed, and the error that ended the run if there was one.
\<close>

definition main ::
  "env \<Rightarrow> (loader_cfg \<Rightarrow> ('i \<times> 't) list) \<Rightarrow> args
   \<Rightarrow> ('i, 't) action list \<times> error option" where
  "main e read a0 =
     (case init_distributed e a0 of
        Inl er \<Rightarrow> ([], Some er)
      | Inr (setup, a) \<Rightarrow>
          if fp16 a \<and> \<not> cudnn_enabled e then (map Effect setup, Some AssertionError)
          else (map Effect (setup
                            @ [CreateModel (arch a)]
                            @ (if distributed a then [WrapDDP] else []))
                @ stages read a,
                None))"

text \<open>Observers of a run of the driver.\<close>

fun fit_calls :: "('i, 't) action list \<Rightarrow> fit_call list" where
  "fit_calls [] = []"
| "fit_calls (Effect (LearnerFit c) # as) = c # fit_calls as"
| "fit_calls (_ # as) = fit_calls as"

fun stage_data :: "('i, 't) action list \<Rightarrow> ('i, 't) model_data list" where
  "stage_data [] = []"
| "stage_data (FromModelData d # as) = d # stage_data as"
| "stage_data (SetData d # as) = d # stage_data as"
| "stage_data (_ # as) = stage_data as"

text \<open>The calls that only set up the process group, before any model or data exists.\<close>

fun is_setup :: "('i, 't) action \<Rightarrow> bool" where
  "is_setup (Effect (SetDevice g)) = True"
| "is_setup (Effect (InitProcessGroup b u w)) = True"
| "is_setup _ = False"

text \<open>The stage steps of a run: data handed to the learner, and fits.\<close>

fun stage_steps :: "('i, 't) action list \<Rightarrow> (('i, 't) model_data + fit_call) list" where
  "stage_steps [] = []"
| "stage_steps (FromModelData d # as) = Inl d # stage_steps as"
| "stage_steps (SetData d # as) = Inl d # stage_steps as"
| "stage_steps (Effect (LearnerFit c) # as) = Inr c # stage_steps as"
| "stage_steps (_ # as) = stage_steps as"

fun crop_size :: "tfm \<Rightarrow> nat option" where
  "crop_size (RandomResizedCrop n lo hi) = Some n"
| "crop_size (CenterCrop n) = Some n"
| "crop_size _ = None"

definition input_sizes :: "('i, 't) model_data \<Rightarrow> nat list" where
  "input_sizes d =
     List.map_filter crop_size
       (transform (dataset (trn_dl d)) @ transform (dataset (val_dl d))
        @ (case aug_dl d of None \<Rightarrow> [] | Some p \<Rightarrow> transform (dataset p)))"

definition fresh_prefetcher :: "('i, 't) prefetcher \<Rightarrow> bool" where
  "fresh_prefetcher p =
     (stream p = 0 \<and> loaditer p = None \<and> next_input p = None \<and> next_target p = None
      \<and> stop_after p = PyNone)"

text \<open>The arguments after the distributed set-up of \<open>main\<close>.\<close>

definition setup_args :: "env \<Rightarrow> args \<Rightarrow> args" where
  "setup_args e a =
     a\<lparr>distributed := world_size a > 1,
       gpu := (if world_size a > 1 then rank a mod int (device_count e) else 0)\<rparr>"

text \<open>The keyword arguments one \<open>fit\<close> of the driver passes to \<open>learner.fit\<close>.\<close>

definition stage_fit :: "args \<Rightarrow> string \<Rightarrow> rat \<Rightarrow> sampler option \<Rightarrow> fit_call" where
  "stage_fit a name l smp =
     \<lparr>lr = l, n_cycle = 1, cycle_len = 1, fit_sampler = smp, wds = 2 / 100000,
      use_clr = PyNone, loss_scale = 1024, sargs = snd (save_args a name (save_dir a))\<rparr>"

text \<open>Arguments and environments for concrete runs.\<close>

definition example_args :: args where
  "example_args =
     \<lparr>data = ''/data/imagenet'', save_dir = ''/home/u/imagenet_training'',
      arch = ''resnet18'', workers = 4, batch_size = 256, fp16 = True,
      dist_url = ''file://sync.file'', dist_backend = ''nccl'', world_size = 1,
      rank = 0, distributed = False, gpu = 0\<rparr>"

definition no_batches :: "loader_cfg \<Rightarrow> (nat \<times> nat) list" where
  "no_batches c = []"

section \<open>The events of an iteration\<close>

lemma cap_reached_not_int: "\<not> is_int cap \<Longrightarrow> cap_reached cap c = False"
  by (cases cap) simp_all

lemma iter_loop_done: "next_input s = None \<Longrightarrow> iter_loop s c = Inr ([], s)"
  by (subst iter_loop.simps) simp

lemma iter_loop_trace:
  "loaditer s = Some rest \<Longrightarrow> next_input s = Some (Cuda n x) \<Longrightarrow>
   next_target s = Some (Cuda n y) \<Longrightarrow> stream s = Suc n \<Longrightarrow>
   \<exists>s'. iter_loop s c = Inr (loop_trace (stop_after s) n (x, y) rest c, s')
        \<and> loader s' = loader s \<and> stop_after s' = stop_after s \<and> dataset s' = dataset s
        \<and> (\<not> is_int (stop_after s) \<longrightarrow>
             s' = s\<lparr>loaditer := Some [], next_input := None, next_target := None,
                    stream := Suc n + length rest\<rparr>)"
proof (induction rest arbitrary: s n x y c)
  case Nil
  then show ?case
    apply (subst iter_loop.simps)
    apply (simp add: preload_def iter_loop_done cap_reached_not_int)
    done
next
  case (Cons b rest)
  obtain x' y' where b: "b = (x', y')" by (cases b)
  let ?s1 = "s\<lparr>loaditer := Some rest,
                 next_input := Some (Cuda (Suc n) x'),
                 next_target := Some (Cuda (Suc n) y'),
                 stream := Suc (Suc n)\<rparr>"
  have pre: "preload s = Inr ([Issue (Suc n)], ?s1)"
    using Cons.prems by (simp add: preload_def b)
  from Cons.IH [of ?s1 "Suc n" x' y' "c + 1"]
  obtain s' where s': "iter_loop ?s1 (c + 1) = Inr (loop_trace (stop_after s) (Suc n) (x', y') rest (c + 1), s')"
     "loader s' = loader s" "stop_after s' = stop_after s" "dataset s' = dataset s"
     "\<not> is_int (stop_after s) \<longrightarrow>
             s' = s\<lparr>loaditer := Some [], next_input := None, next_target := None,
                    stream := Suc (Suc n) + length rest\<rparr>"
    by auto
  show ?case
    apply (subst iter_loop.simps)
    using Cons.prems pre s' by (auto simp: b cap_reached_not_int)
qed

lemma iter_trace:
  "\<exists>s'. DataPrefetcher_iter s = Inr (full_trace (stop_after s) (stream s) (batches (loader s)), s')
     \<and> loader s' = loader s \<and> stop_after s' = stop_after s \<and> dataset s' = dataset s
     \<and> (\<not> is_int (stop_after s) \<longrightarrow>
             s' = s\<lparr>loaditer := Some [], next_input := None, next_target := None,
                    stream := stream s + length (batches (loader s))\<rparr>)"
proof (cases "batches (loader s)")
  case Nil
  then show ?thesis
    by (simp add: DataPrefetcher_iter_def preload_def iter_loop_done)
next
  case (Cons b rest)
  obtain x y where b: "b = (x, y)" by (cases b)
  let ?s1 = "s\<lparr>loaditer := Some rest,
                 next_input := Some (Cuda (stream s) x),
                 next_target := Some (Cuda (stream s) y),
                 stream := Suc (stream s)\<rparr>"
  have pre: "preload (s\<lparr>loaditer := Some ((x, y) # rest)\<rparr>) = Inr ([Issue (stream s)], ?s1)"
    by (simp add: preload_def)
  from iter_loop_trace [of ?s1 rest "stream s" x y 0]
  obtain s' where "iter_loop ?s1 0 = Inr (loop_trace (stop_after s) (stream s) (x, y) rest 0, s')"
     "loader s' = loader s" "stop_after s' = stop_after s" "dataset s' = dataset s"
     "\<not> is_int (stop_after s) \<longrightarrow>
             s' = s\<lparr>loaditer := Some [], next_input := None, next_target := None,
                    stream := Suc (stream s) + length rest\<rparr>"
    by auto
  then show ?thesis
    by (simp add: DataPrefetcher_iter_def pre Cons b)
qed

lemma yielded_loop_nocap:
  "\<not> is_int cap \<Longrightarrow> yielded (loop_trace cap n b rest c) = copies n (b # rest)"
  by (induction rest arbitrary: n b c) (simp_all add: cap_reached_not_int)

lemma yielded_loop_cap:
  "yielded (loop_trace (PyInt k) n b rest c)
     = take (nat (max 1 (k - c + 1))) (copies n (b # rest))"
proof (induction rest arbitrary: n b c)
  case Nil
  have "nat (max 1 (k - c + 1)) = Suc (nat (max 1 (k - c + 1)) - 1)" by simp
  then obtain m where "nat (max 1 (k - c + 1)) = Suc m" ..
  then show ?case by simp
next
  case (Cons b' rest)
  show ?case
  proof (cases "c + 1 > k")
    case True
    then have "nat (max 1 (k - c + 1)) = Suc 0" by simp
    with True show ?thesis by simp
  next
    case False
    then have "nat (max 1 (k - c + 1)) = Suc (nat (max 1 (k - (c + 1) + 1)))" by simp
    with False Cons.IH [of "Suc n" b' "c + 1"] show ?thesis by simp
  qed
qed

lemma in_flight_Cons [simp]:
  "in_flight (Issue n # es) = in_flight es + 1"
  "in_flight (Wait # es) = in_flight es - 1"
  "in_flight (Yield a b # es) = in_flight es"
  "in_flight [] = 0"
  by (simp_all add: in_flight_def)

lemma in_flight_loop:
  "prefix p (loop_trace cap n b rest c) \<Longrightarrow> in_flight p = 0 \<or> in_flight p = -1"
proof (induction rest arbitrary: n b c p)
  case Nil
  then show ?case by (auto simp: prefix_Cons)
next
  case (Cons b' rest)
  show ?case
  proof (cases "cap_reached cap (c + 1)")
    case True
    with Cons.prems show ?thesis by (auto simp: prefix_Cons)
  next
    case False
    with Cons.prems consider "p = []" | "p = [Wait]" | "p = [Wait, Issue (Suc n)]"
      | p' where "p = Wait # Issue (Suc n) # Yield (Cuda n (fst b)) (Some (Cuda n (snd b))) # p'"
                 "prefix p' (loop_trace cap (Suc n) b' rest (c + 1))"
      by (auto simp: prefix_Cons)
    then show ?thesis
    proof cases
      case 4
      from Cons.IH [OF 4(2)] show ?thesis by (simp add: 4(1))
    qed simp_all
  qed
qed

lemma in_flight_full:
  "prefix p (full_trace cap n bs) \<Longrightarrow> in_flight p = 0 \<or> in_flight p = 1"
proof (cases bs)
  case Nil
  assume "prefix p (full_trace cap n bs)"
  with Nil show ?thesis by simp
next
  case (Cons b rest)
  assume "prefix p (full_trace cap n bs)"
  with Cons consider "p = []" | p' where "p = Issue n # p'" "prefix p' (loop_trace cap n b rest 0)"
    by (auto simp: prefix_Cons)
  then show ?thesis
  proof cases
    case 2
    from in_flight_loop [OF 2(2)] show ?thesis by (auto simp: 2(1))
  qed simp
qed

lemma resident_Cons_mono: "set (resident es) \<subseteq> set (resident (e # es))"
  by (cases e) auto

lemma yield_prefix_Cons:
  "prefix (p @ [Yield a t]) (e # es) \<Longrightarrow>
   (p = [] \<and> e = Yield a t) \<or> (\<exists>p'. p = e # p' \<and> prefix (p' @ [Yield a t]) es)"
  by (cases p) auto

lemma resident_loop:
  "prefix (p @ [Yield a t]) (loop_trace cap n b rest c) \<Longrightarrow>
   \<exists>m x y. a = Cuda m x \<and> t = Some (Cuda m y) \<and> m \<in> set (resident (Issue n # p))"
proof (induction rest arbitrary: n b c p)
  case Nil
  from Nil have "p = [Wait]" "a = Cuda n (fst b)" "t = Some (Cuda n (snd b))"
    by (auto dest!: yield_prefix_Cons)
  then show ?case by simp
next
  case (Cons b' rest)
  let ?y = "Yield (Cuda n (fst b)) (Some (Cuda n (snd b))) :: ('a, 'b) event"
  let ?tl = "if cap_reached cap (c + 1) then [] else loop_trace cap (Suc n) b' rest (c + 1)"
  from Cons.prems have "prefix (p @ [Yield a t]) (Wait # Issue (Suc n) # ?y # ?tl)"
    by simp
  then consider
      (here) "p = [Wait, Issue (Suc n)]" "a = Cuda n (fst b)" "t = Some (Cuda n (snd b))"
    | (later) p' where "p = Wait # Issue (Suc n) # ?y # p'"
                  "prefix (p' @ [Yield a t]) ?tl"
    by (auto dest!: yield_prefix_Cons)
  then show ?case
  proof cases
    case here
    then show ?thesis by simp
  next
    case later
    from later(2) have nc: "\<not> cap_reached cap (c + 1)"
      by (auto split: if_splits)
    with later(2) have "prefix (p' @ [Yield a t]) (loop_trace cap (Suc n) b' rest (c + 1))"
      by simp
    from Cons.IH [OF this] obtain m x y where
      m: "a = Cuda m x" "t = Some (Cuda m y)" "m \<in> set (resident (Issue (Suc n) # p'))"
      by blast
    have "set (resident (Issue (Suc n) # p')) \<subseteq> set (resident (Issue n # p))"
      unfolding later(1) by (auto split: if_splits)
    with m show ?thesis by blast
  qed
qed

lemma resident_full:
  "prefix (p @ [Yield a t]) (full_trace cap n bs) \<Longrightarrow>
   \<exists>m x y. a = Cuda m x \<and> t = Some (Cuda m y) \<and> m \<in> set (resident p)"
proof (cases bs)
  case Nil
  assume "prefix (p @ [Yield a t]) (full_trace cap n bs)"
  with Nil show ?thesis by simp
next
  case (Cons b rest)
  assume "prefix (p @ [Yield a t]) (full_trace cap n bs)"
  with Cons obtain p' where p': "p = Issue n # p'" "prefix (p' @ [Yield a t]) (loop_trace cap n b rest 0)"
    by (auto dest!: yield_prefix_Cons)
  from resident_loop [OF p'(2)] show ?thesis by (simp only: p'(1))
qed

lemma issued_loop:
  "\<exists>k. issued (loop_trace cap n b rest c) = [Suc n..<Suc n + k]"
proof (induction rest arbitrary: n b c)
  case Nil
  show ?case by (rule exI [of _ 0]) simp
next
  case (Cons b' rest)
  show ?case
  proof (cases "cap_reached cap (c + 1)")
    case True
    then show ?thesis by (intro exI [of _ 1]) simp
  next
    case False
    from Cons.IH [of "Suc n" b' "c + 1"] obtain k where
      k: "issued (loop_trace cap (Suc n) b' rest (c + 1)) = [Suc (Suc n)..<Suc (Suc n) + k]"
      by blast
    have "[Suc n..<Suc n + Suc k] = Suc n # [Suc (Suc n)..<Suc (Suc n) + k]"
      by (simp add: upt_rec)
    with False k show ?thesis
      by (intro exI [of _ "Suc k"]) simp
  qed
qed

lemma issued_full: "distinct (issued (full_trace cap n bs))"
proof (cases bs)
  case Nil
  then show ?thesis by simp
next
  case (Cons b rest)
  from issued_loop [of cap n b rest 0] obtain k where
    "issued (loop_trace cap n b rest 0) = [Suc n..<Suc n + k]" by blast
  with Cons show ?thesis by simp
qed

section \<open>Successive iterations of one object\<close>

lemma iter_loop_issued:
  "loaditer s = Some rest \<Longrightarrow> next_input s = Some (Cuda n x) \<Longrightarrow>
   next_target s = Some (Cuda n y) \<Longrightarrow> stream s = Suc n \<Longrightarrow>
   \<exists>s'. iter_loop s c = Inr (loop_trace (stop_after s) n (x, y) rest c, s')
        \<and> Suc n \<le> stream s'
        \<and> issued (loop_trace (stop_after s) n (x, y) rest c) = [Suc n..<stream s']"
proof (induction rest arbitrary: s n x y c)
  case Nil
  then show ?case
    apply (subst iter_loop.simps)
    apply (simp add: preload_def iter_loop_done)
    done
next
  case (Cons b rest)
  obtain x' y' where b: "b = (x', y')" by (cases b)
  let ?s1 = "s\<lparr>loaditer := Some rest,
                 next_input := Some (Cuda (Suc n) x'),
                 next_target := Some (Cuda (Suc n) y'),
                 stream := Suc (Suc n)\<rparr>"
  have pre: "preload s = Inr ([Issue (Suc n)], ?s1)"
    using Cons.prems by (simp add: preload_def b)
  from Cons.IH [of ?s1 "Suc n" x' y' "c + 1"]
  obtain s' where s': "iter_loop ?s1 (c + 1) = Inr (loop_trace (stop_after s) (Suc n) (x', y') rest (c + 1), s')"
     "Suc (Suc n) \<le> stream s'"
     "issued (loop_trace (stop_after s) (Suc n) (x', y') rest (c + 1)) = [Suc (Suc n)..<stream s']"
    by auto
  from s'(2) have u: "[Suc n..<stream s'] = Suc n # [Suc (Suc n)..<stream s']"
    by (simp add: upt_rec)
  show ?case
  proof (cases "cap_reached (stop_after s) (c + 1)")
    case True
    show ?thesis
      apply (subst iter_loop.simps)
      using Cons.prems pre True by (simp add: b)
  next
    case False
    show ?thesis
      apply (subst iter_loop.simps)
      using Cons.prems pre False s' u by (simp add: b)
  qed
qed

lemma iter_issued:
  assumes "DataPrefetcher_iter s = Inr (evs, s')"
  shows "stream s \<le> stream s' \<and> issued evs = [stream s..<stream s']"
proof (cases "batches (loader s)")
  case Nil
  with assms show ?thesis
    by (auto simp: DataPrefetcher_iter_def preload_def iter_loop_done)
next
  case (Cons b rest)
  obtain x y where b: "b = (x, y)" by (cases b)
  let ?s1 = "s\<lparr>loaditer := Some rest,
                 next_input := Some (Cuda (stream s) x),
                 next_target := Some (Cuda (stream s) y),
                 stream := Suc (stream s)\<rparr>"
  have pre: "preload (s\<lparr>loaditer := Some ((x, y) # rest)\<rparr>) = Inr ([Issue (stream s)], ?s1)"
    by (simp add: preload_def)
  from iter_loop_issued [of ?s1 rest "stream s" x y 0]
  obtain s2 where s2: "iter_loop ?s1 0 = Inr (loop_trace (stop_after s) (stream s) (x, y) rest 0, s2)"
     "Suc (stream s) \<le> stream s2"
     "issued (loop_trace (stop_after s) (stream s) (x, y) rest 0) = [Suc (stream s)..<stream s2]"
    by auto
  from s2(2) have u: "[stream s..<stream s2] = stream s # [Suc (stream s)..<stream s2]"
    by (simp add: upt_rec)
  from assms s2(1) have e: "evs = Issue (stream s) # loop_trace (stop_after s) (stream s) (x, y) rest 0"
    and s': "s' = s2"
    by (simp_all add: DataPrefetcher_iter_def pre Cons b)
  from s2 u show ?thesis unfolding e s' by simp
qed

lemma in_flight_append: "in_flight (xs @ ys) = in_flight xs + in_flight ys"
  by (simp add: in_flight_def)

lemma in_flight_loop_total:
  "\<not> is_int cap \<Longrightarrow> in_flight (loop_trace cap n b rest c) = - 1"
  by (induction rest arbitrary: n b c) (simp_all add: cap_reached_not_int)

lemma in_flight_full_total:
  "\<not> is_int cap \<Longrightarrow> in_flight (full_trace cap n bs) = 0"
  by (cases bs) (simp_all add: in_flight_loop_total)

lemma resident_append_mono: "set (resident ys) \<subseteq> set (resident (xs @ ys))"
proof (induction xs)
  case Nil
  show ?case by simp
next
  case (Cons x xs)
  from resident_Cons_mono [of "xs @ ys" x] Cons show ?case by auto
qed

lemma issued_append: "issued (xs @ ys) = issued xs @ issued ys"
  by (induction xs rule: issued.induct) simp_all

lemma snoc_in_append:
  assumes "p @ [e] = xs @ us" and "us \<noteq> []"
  shows "\<exists>p'. us = p' @ [e] \<and> p = xs @ p'"
proof -
  from assms(2) obtain p' z where us: "us = p' @ [z]"
    using rev_exhaust by blast
  with assms(1) have "p @ [e] = (xs @ p') @ [z]" by simp
  then have "p = xs @ p' \<and> e = z" by (simp only: append1_eq_conv)
  with us show ?thesis by blast
qed

lemma upt_join:
  assumes "a \<le> b" and "b \<le> (c::nat)"
  shows "[a..<b] @ [b..<c] = [a..<c]"
proof -
  from assms(2) obtain k where c: "c = b + k"
    using le_Suc_ex by blast
  show ?thesis
    unfolding c by (rule upt_add_eq_append [OF assms(1), symmetric])
qed

lemma run_iters_ok:
  assumes "run_iters k s = Inr (evs, s')"
  shows "stream s \<le> stream s' \<and> issued evs = [stream s..<stream s']
       \<and> (\<forall>p a t. prefix (p @ [Yield a t]) evs \<longrightarrow>
             (\<exists>m x y. a = Cuda m x \<and> t = Some (Cuda m y) \<and> m \<in> set (resident p)))
       \<and> (\<not> is_int (stop_after s) \<longrightarrow>
             in_flight evs = 0 \<and> (\<forall>p. prefix p evs \<longrightarrow> in_flight p = 0 \<or> in_flight p = 1))"
  using assms
proof (induction k arbitrary: s evs s')
  case 0
  then show ?case by simp
next
  case (Suc k)
  from Suc.prems obtain evs1 s1 evs2 where
    it: "DataPrefetcher_iter s = Inr (evs1, s1)" and
    rn: "run_iters k s1 = Inr (evs2, s')" and
    evs: "evs = evs1 @ evs2"
    by (auto split: sum.splits)
  from iter_trace [of s] it have
    e1: "evs1 = full_trace (stop_after s) (stream s) (batches (loader s))"
    and sa: "stop_after s1 = stop_after s"
    by auto
  from iter_issued [OF it] have st1: "stream s \<le> stream s1"
    and is1: "issued evs1 = [stream s..<stream s1]" by simp_all
  from Suc.IH [OF rn] have st2: "stream s1 \<le> stream s'"
    and is2: "issued evs2 = [stream s1..<stream s']"
    and y2: "\<forall>p a t. prefix (p @ [Yield a t]) evs2 \<longrightarrow>
             (\<exists>m x y. a = Cuda m x \<and> t = Some (Cuda m y) \<and> m \<in> set (resident p))"
    and f2: "\<not> is_int (stop_after s) \<longrightarrow>
             in_flight evs2 = 0 \<and> (\<forall>p. prefix p evs2 \<longrightarrow> in_flight p = 0 \<or> in_flight p = 1)"
    by (simp_all add: sa)
  have a: "stream s \<le> stream s'" using st1 st2 by simp
  have b: "issued evs = [stream s..<stream s']"
    unfolding evs issued_append is1 is2 using st1 st2 by (rule upt_join)
  have c: "\<forall>p a t. prefix (p @ [Yield a t]) evs \<longrightarrow>
             (\<exists>m x y. a = Cuda m x \<and> t = Some (Cuda m y) \<and> m \<in> set (resident p))"
  proof (intro allI impI)
    fix p a t
    assume "prefix (p @ [Yield a t]) evs"
    then have "prefix (p @ [Yield a t]) evs1
                 \<or> (\<exists>us. p @ [Yield a t] = evs1 @ us \<and> prefix us evs2)"
      unfolding evs by (simp only: prefix_append)
    then show "\<exists>m x y. a = Cuda m x \<and> t = Some (Cuda m y) \<and> m \<in> set (resident p)"
    proof (elim disjE exE conjE)
      assume "prefix (p @ [Yield a t]) evs1"
      then show ?thesis unfolding e1 by (rule resident_full)
    next
      fix us
      assume eq: "p @ [Yield a t] = evs1 @ us" and pu: "prefix us evs2"
      show ?thesis
      proof (cases "us = []")
        case True
        with eq have "prefix (p @ [Yield a t]) evs1" by simp
        then show ?thesis unfolding e1 by (rule resident_full)
      next
        case False
        from snoc_in_append [OF eq False] obtain p' where
          p': "us = p' @ [Yield a t]" "p = evs1 @ p'" by blast
        from pu have "prefix (p' @ [Yield a t]) evs2" by (simp only: p'(1))
        with y2 obtain m x y where
          m: "a = Cuda m x" "t = Some (Cuda m y)" "m \<in> set (resident p')" by blast
        from resident_append_mono [of p' evs1] m(3) have "m \<in> set (resident p)"
          unfolding p'(2) by (rule subsetD)
        with m(1,2) show ?thesis by blast
      qed
    qed
  qed
  have d: "\<not> is_int (stop_after s) \<longrightarrow>
             in_flight evs = 0 \<and> (\<forall>p. prefix p evs \<longrightarrow> in_flight p = 0 \<or> in_flight p = 1)"
  proof
    assume ni: "\<not> is_int (stop_after s)"
    from ni have z1: "in_flight evs1 = 0"
      unfolding e1 by (rule in_flight_full_total)
    from ni f2 have z2: "in_flight evs2 = 0"
      and pf2: "\<forall>p. prefix p evs2 \<longrightarrow> in_flight p = 0 \<or> in_flight p = 1" by simp_all
    have tot: "in_flight evs = 0"
      unfolding evs in_flight_append z1 z2 by simp
    have "\<forall>p. prefix p evs \<longrightarrow> in_flight p = 0 \<or> in_flight p = 1"
    proof (intro allI impI)
      fix p
      assume "prefix p evs"
      then have "prefix p evs1 \<or> (\<exists>us. p = evs1 @ us \<and> prefix us evs2)"
        unfolding evs by (simp only: prefix_append)
      then show "in_flight p = 0 \<or> in_flight p = 1"
      proof (elim disjE exE conjE)
        assume "prefix p evs1"
        then show ?thesis unfolding e1 by (rule in_flight_full)
      next
        fix us
        assume p: "p = evs1 @ us" and "prefix us evs2"
        with pf2 have "in_flight us = 0 \<or> in_flight us = 1" by blast
        then show ?thesis unfolding p in_flight_append z1 by simp
      qed
    qed
    with tot show "in_flight evs = 0 \<and> (\<forall>p. prefix p evs \<longrightarrow> in_flight p = 0 \<or> in_flight p = 1)"
      by simp
  qed
  from a b c d show ?case by (intro conjI)
qed

section \<open>What the consumer receives\<close>

lemma host_batch_copies: "map host_batch (copies n bs) = map Some bs"
  by (induction bs arbitrary: n) simp_all

lemma length_copies: "length (copies n bs) = length bs"
  by (induction bs arbitrary: n) simp_all

lemma tickets_copies: "map (ticket \<circ> fst) (copies n bs) = [n..<n + length bs]"
  by (induction bs arbitrary: n) (simp_all add: upt_rec)

lemma take_copies: "take m (copies n bs) = copies n (take m bs)"
proof (induction bs arbitrary: n m)
  case Nil
  show ?case by simp
next
  case (Cons b bs)
  then show ?case by (cases m) simp_all
qed

lemma yielded_full_nocap:
  "\<not> is_int cap \<Longrightarrow> yielded (full_trace cap n bs) = copies n bs"
  by (cases bs) (simp_all add: yielded_loop_nocap)

lemma yielded_full_cap:
  "yielded (full_trace (PyInt k) n bs) = copies n (take (nat (max 1 (k + 1))) bs)"
  by (cases bs) (simp_all add: yielded_loop_cap take_copies del: copies.simps(2))

lemma yielded_full_le: "length (yielded (full_trace cap n bs)) \<le> length bs"
proof (cases "is_int cap")
  case True
  then obtain k where "cap = PyInt k" by (cases cap) simp_all
  then show ?thesis by (simp add: yielded_full_cap length_copies)
next
  case False
  then show ?thesis by (simp add: yielded_full_nocap length_copies)
qed

text \<open>
  C1. With no cap configured (\<open>stop_after\<close> is \<open>None\<close>), an iteration over a source of
  N batches returns normally and hands the consumer exactly the device copies of the N
  source batches, in source order: the host batches behind the yielded ones are the
  source's list, there are N of them, and no transfer is handed out twice.
\<close>

theorem prefetcher_yields_source_in_order:
  assumes "stop_after s = PyNone"
  shows "\<exists>evs s'. DataPrefetcher_iter s = Inr (evs, s')
           \<and> yielded evs = copies (stream s) (batches (loader s))
           \<and> map host_batch (yielded evs) = map Some (batches (loader s))
           \<and> length (yielded evs) = loader_len (loader s)
           \<and> distinct (map (ticket \<circ> fst) (yielded evs))"
proof -
  from assms have ni: "\<not> is_int (stop_after s)" by simp
  from iter_trace [of s] obtain s' where
    it: "DataPrefetcher_iter s = Inr (full_trace (stop_after s) (stream s) (batches (loader s)), s')"
    by blast
  have y: "yielded (full_trace (stop_after s) (stream s) (batches (loader s)))
             = copies (stream s) (batches (loader s))"
    using ni by (rule yielded_full_nocap)
  show ?thesis
    using it y by (simp add: host_batch_copies length_copies tickets_copies loader_len_def)
qed

theorem prefetcher_yields_source_in_order_witness:
  "stop_after (DataPrefetcher_init (plain_loader [(1::nat, 10::nat), (2, 20), (3, 30)]) PyNone) = PyNone
   \<and> (\<exists>evs s'. DataPrefetcher_iter
                 (DataPrefetcher_init (plain_loader [(1::nat, 10::nat), (2, 20), (3, 30)]) PyNone)
               = Inr (evs, s')
        \<and> map host_batch (yielded evs) = [Some (1, 10), Some (2, 20), Some (3, 30)]
        \<and> length (yielded evs) = 3)"
proof -
  let ?s = "DataPrefetcher_init (plain_loader [(1::nat, 10::nat), (2, 20), (3, 30)]) PyNone"
  have h: "stop_after ?s = PyNone"
    by (simp add: DataPrefetcher_init_def)
  have b: "batches (loader ?s) = [(1, 10), (2, 20), (3, 30)]"
    by (simp add: DataPrefetcher_init_def plain_loader_def)
  from prefetcher_yields_source_in_order [OF h] obtain evs s' where
    "DataPrefetcher_iter ?s = Inr (evs, s')"
    "map host_batch (yielded evs) = map Some (batches (loader ?s))"
    "length (yielded evs) = loader_len (loader ?s)"
    by blast
  with h b show ?thesis
    by (auto simp: loader_len_def)
qed
text \<open>
  C2, as stated, fails. The copy stream belongs to the object, not to one iteration. An
  iteration stopped by the cap leaves the copy of the next batch issued and never waited
  on; when the same object is iterated again, the first \<open>preload\<close> issues another copy
  before any wait, and the number of copies issued minus the number of waits is 2.
\<close>

theorem leftover_copy_after_capped_iteration:
  "map_sum id fst
     (run_iters 2 (DataPrefetcher_init (plain_loader [(1::nat, 10::nat), (2, 20)]) (PyInt 0)))
     = Inr [Issue 0, Wait, Issue 1, Yield (Cuda 0 1) (Some (Cuda 0 10)),
            Issue 2, Wait, Issue 3, Yield (Cuda 2 1) (Some (Cuda 2 10))]
   \<and> prefix [Issue 0, Wait, Issue 1, Yield (Cuda 0 1) (Some (Cuda 0 10)), Issue 2]
        [Issue 0, Wait, Issue 1, Yield (Cuda 0 (1::nat)) (Some (Cuda 0 (10::nat))),
         Issue 2, Wait, Issue 3, Yield (Cuda 2 1) (Some (Cuda 2 10))]
   \<and> in_flight [Issue 0, Wait, Issue 1, Yield (Cuda 0 (1::nat)) (Some (Cuda 0 (10::nat))),
                 Issue 2] = 2"
proof -
  have "map_sum id fst
     (run_iters 2 (DataPrefetcher_init (plain_loader [(1::nat, 10::nat), (2, 20)]) (PyInt 0)))
     = Inr [Issue 0, Wait, Issue 1, Yield (Cuda 0 1) (Some (Cuda 0 10)),
            Issue 2, Wait, Issue 3, Yield (Cuda 2 1) (Some (Cuda 2 10))]"
    by code_simp
  then show ?thesis by (simp add: in_flight_def)
qed

text \<open>
  C2, amended. Within any one iteration, counted from the start of that iteration
  (whatever the cap and the state it starts from), the number of transfers issued minus
  the number of waits performed is 0 or 1 after every prefix of its events. Over the
  life of an object, counted from its construction through any number of successive
  iterations each run to its end, the same holds at every instant when no integer cap is
  set. With or without a cap, over one iteration and over the life of the object, the
  transfers issued are pairwise distinct, and whenever a batch is handed to the consumer
  both its tensors come from one transfer that was issued and then followed by a
  \<open>wait_stream\<close> before the yield.
\<close>

theorem one_transfer_in_flight_and_waited_before_yield:
  "(DataPrefetcher_iter s = Inr (evs, s') \<longrightarrow>
      (\<forall>p. prefix p evs \<longrightarrow> in_flight p = 0 \<or> in_flight p = 1)
      \<and> distinct (issued evs)
      \<and> (\<forall>p a t. prefix (p @ [Yield a t]) evs \<longrightarrow>
            (\<exists>m x y. a = Cuda m x \<and> t = Some (Cuda m y) \<and> m \<in> set (resident p))))
   \<and> (run_iters k (DataPrefetcher_init ld cap) = Inr (evs_all, s_end) \<longrightarrow>
        distinct (issued evs_all)
        \<and> (\<forall>p a t. prefix (p @ [Yield a t]) evs_all \<longrightarrow>
              (\<exists>m x y. a = Cuda m x \<and> t = Some (Cuda m y) \<and> m \<in> set (resident p)))
        \<and> (\<not> is_int cap \<longrightarrow>
              (\<forall>p. prefix p evs_all \<longrightarrow> in_flight p = 0 \<or> in_flight p = 1)))"
proof -
  have one: "DataPrefetcher_iter s = Inr (evs, s') \<longrightarrow>
      (\<forall>p. prefix p evs \<longrightarrow> in_flight p = 0 \<or> in_flight p = 1)
      \<and> distinct (issued evs)
      \<and> (\<forall>p a t. prefix (p @ [Yield a t]) evs \<longrightarrow>
            (\<exists>m x y. a = Cuda m x \<and> t = Some (Cuda m y) \<and> m \<in> set (resident p)))"
  proof
    assume it: "DataPrefetcher_iter s = Inr (evs, s')"
    from iter_trace [of s] it
    have evs: "evs = full_trace (stop_after s) (stream s) (batches (loader s))"
      by auto
    have a: "\<forall>p. prefix p evs \<longrightarrow> in_flight p = 0 \<or> in_flight p = 1"
      unfolding evs using in_flight_full by blast
    have b: "distinct (issued evs)"
      unfolding evs by (rule issued_full)
    have c: "\<forall>p a t. prefix (p @ [Yield a t]) evs \<longrightarrow>
               (\<exists>m x y. a = Cuda m x \<and> t = Some (Cuda m y) \<and> m \<in> set (resident p))"
      unfolding evs using resident_full by blast
    from a b c show "(\<forall>p. prefix p evs \<longrightarrow> in_flight p = 0 \<or> in_flight p = 1)
      \<and> distinct (issued evs)
      \<and> (\<forall>p a t. prefix (p @ [Yield a t]) evs \<longrightarrow>
            (\<exists>m x y. a = Cuda m x \<and> t = Some (Cuda m y) \<and> m \<in> set (resident p)))"
      by (intro conjI)
  qed
  have life: "run_iters k (DataPrefetcher_init ld cap) = Inr (evs_all, s_end) \<longrightarrow>
        distinct (issued evs_all)
        \<and> (\<forall>p a t. prefix (p @ [Yield a t]) evs_all \<longrightarrow>
              (\<exists>m x y. a = Cuda m x \<and> t = Some (Cuda m y) \<and> m \<in> set (resident p)))
        \<and> (\<not> is_int cap \<longrightarrow>
              (\<forall>p. prefix p evs_all \<longrightarrow> in_flight p = 0 \<or> in_flight p = 1))"
  proof
    assume rn: "run_iters k (DataPrefetcher_init ld cap) = Inr (evs_all, s_end)"
    have cap: "stop_after (DataPrefetcher_init ld cap) = cap"
      by (simp add: DataPrefetcher_init_def)
    from run_iters_ok [OF rn] have
      i: "issued evs_all = [stream (DataPrefetcher_init ld cap)..<stream s_end]"
      and y: "\<forall>p a t. prefix (p @ [Yield a t]) evs_all \<longrightarrow>
              (\<exists>m x y. a = Cuda m x \<and> t = Some (Cuda m y) \<and> m \<in> set (resident p))"
      and f: "\<not> is_int cap \<longrightarrow>
              (\<forall>p. prefix p evs_all \<longrightarrow> in_flight p = 0 \<or> in_flight p = 1)"
      unfolding cap by simp_all
    have d: "distinct (issued evs_all)"
      unfolding i by simp
    from d y f show "distinct (issued evs_all)
        \<and> (\<forall>p a t. prefix (p @ [Yield a t]) evs_all \<longrightarrow>
              (\<exists>m x y. a = Cuda m x \<and> t = Some (Cuda m y) \<and> m \<in> set (resident p)))
        \<and> (\<not> is_int cap \<longrightarrow>
              (\<forall>p. prefix p evs_all \<longrightarrow> in_flight p = 0 \<or> in_flight p = 1))"
      by (intro conjI)
  qed
  from one life show ?thesis by (intro conjI)
qed

theorem one_transfer_in_flight_and_waited_before_yield_witness:
  "DataPrefetcher_iter (DataPrefetcher_init (plain_loader [(1::nat, 10::nat), (2, 20)]) PyNone)
     = Inr ([Issue 0, Wait, Issue 1, Yield (Cuda 0 1) (Some (Cuda 0 10)),
             Wait, Yield (Cuda 1 2) (Some (Cuda 1 20))],
            (DataPrefetcher_init (plain_loader [(1, 10), (2, 20)]) PyNone)
              \<lparr>loaditer := Some [], stream := 2\<rparr>)
   \<and> prefix [Issue 0, Wait, Issue 1]
        [Issue 0, Wait, Issue 1, Yield (Cuda 0 (1::nat)) (Some (Cuda 0 (10::nat))),
         Wait, Yield (Cuda 1 2) (Some (Cuda 1 20))]
   \<and> in_flight [Issue 0, Wait, Issue 1 :: (nat, nat) event] = 1
   \<and> prefix ([Issue 0, Wait, Issue 1] @ [Yield (Cuda 0 1) (Some (Cuda 0 10))])
        [Issue 0, Wait, Issue 1, Yield (Cuda 0 (1::nat)) (Some (Cuda 0 (10::nat))),
         Wait, Yield (Cuda 1 2) (Some (Cuda 1 20))]
   \<and> 0 \<in> set (resident [Issue 0, Wait, Issue 1 :: (nat, nat) event])
   \<and> run_iters 2 (DataPrefetcher_init (plain_loader [(1::nat, 10::nat)]) PyNone)
       = Inr ([Issue 0, Wait, Yield (Cuda 0 1) (Some (Cuda 0 10)),
               Issue 1, Wait, Yield (Cuda 1 1) (Some (Cuda 1 10))],
              (DataPrefetcher_init (plain_loader [(1, 10)]) PyNone)
                \<lparr>loaditer := Some [], stream := 2\<rparr>)
   \<and> \<not> is_int PyNone
   \<and> prefix [Issue 0, Wait, Yield (Cuda 0 1) (Some (Cuda 0 10)), Issue 1]
        [Issue 0, Wait, Yield (Cuda 0 (1::nat)) (Some (Cuda 0 (10::nat))),
         Issue 1, Wait, Yield (Cuda 1 1) (Some (Cuda 1 10))]
   \<and> in_flight [Issue 0, Wait, Yield (Cuda 0 (1::nat)) (Some (Cuda 0 (10::nat))), Issue 1] = 1
   \<and> prefix ([Issue 0, Wait, Yield (Cuda 0 1) (Some (Cuda 0 10)), Issue 1, Wait]
             @ [Yield (Cuda 1 1) (Some (Cuda 1 10))])
        [Issue 0, Wait, Yield (Cuda 0 (1::nat)) (Some (Cuda 0 (10::nat))),
         Issue 1, Wait, Yield (Cuda 1 1) (Some (Cuda 1 10))]
   \<and> 1 \<in> set (resident [Issue 0, Wait, Yield (Cuda 0 (1::nat)) (Some (Cuda 0 (10::nat))),
                           Issue 1, Wait])"
proof -
  let ?a = "DataPrefetcher_init (plain_loader [(1::nat, 10::nat), (2, 20)]) PyNone"
  let ?evs = "[Issue 0, Wait, Issue 1, Yield (Cuda 0 (1::nat)) (Some (Cuda 0 (10::nat))),
               Wait, Yield (Cuda 1 2) (Some (Cuda 1 20))]"
  let ?b = "DataPrefetcher_init (plain_loader [(1::nat, 10::nat)]) PyNone"
  let ?all = "[Issue 0, Wait, Yield (Cuda 0 (1::nat)) (Some (Cuda 0 (10::nat))),
               Issue 1, Wait, Yield (Cuda 1 1) (Some (Cuda 1 10))]"
  have run: "DataPrefetcher_iter ?a = Inr (?evs, ?a\<lparr>loaditer := Some [], stream := 2\<rparr>)"
    by code_simp
  have p1: "prefix [Issue 0, Wait, Issue 1] ?evs" by simp
  have p2: "prefix ([Issue 0, Wait, Issue 1] @ [Yield (Cuda 0 1) (Some (Cuda 0 10))]) ?evs"
    by simp
  have run2: "run_iters 2 ?b = Inr (?all, ?b\<lparr>loaditer := Some [], stream := 2\<rparr>)"
    by code_simp
  have ni: "\<not> is_int PyNone" by simp
  have q1: "prefix [Issue 0, Wait, Yield (Cuda 0 1) (Some (Cuda 0 10)), Issue 1] ?all"
    by simp
  have q2: "prefix ([Issue 0, Wait, Yield (Cuda 0 1) (Some (Cuda 0 10)), Issue 1, Wait]
                    @ [Yield (Cuda 1 1) (Some (Cuda 1 10))]) ?all"
    by simp
  note thm1 = one_transfer_in_flight_and_waited_before_yield
                [of ?a ?evs "?a\<lparr>loaditer := Some [], stream := 2\<rparr>" 0 "plain_loader []" PyNone "[]"
                    "DataPrefetcher_init (plain_loader []) PyNone"]
  note thm2 = one_transfer_in_flight_and_waited_before_yield
                [of ?a ?evs "?a\<lparr>loaditer := Some [], stream := 2\<rparr>" 2 "plain_loader [(1, 10)]"
                    PyNone ?all "?b\<lparr>loaditer := Some [], stream := 2\<rparr>"]
  from thm1 run p1
  have c1: "in_flight [Issue 0, Wait, Issue 1 :: (nat, nat) event] = 0
              \<or> in_flight [Issue 0, Wait, Issue 1 :: (nat, nat) event] = 1"
    by blast
  from thm1 run p2
  have c2: "\<exists>m x y. Cuda 0 (1::nat) = Cuda m x \<and> Some (Cuda 0 (10::nat)) = Some (Cuda m y)
          \<and> m \<in> set (resident [Issue 0, Wait, Issue 1 :: (nat, nat) event])"
    by blast
  from thm2 run2 ni q1
  have c3: "in_flight [Issue 0, Wait, Yield (Cuda 0 (1::nat)) (Some (Cuda 0 (10::nat))), Issue 1] = 0
          \<or> in_flight [Issue 0, Wait, Yield (Cuda 0 (1::nat)) (Some (Cuda 0 (10::nat))), Issue 1] = 1"
    by blast
  from thm2 run2 q2
  have c4: "\<exists>m x y. Cuda 1 (1::nat) = Cuda m x \<and> Some (Cuda 1 (10::nat)) = Some (Cuda m y)
          \<and> m \<in> set (resident [Issue 0, Wait, Yield (Cuda 0 (1::nat)) (Some (Cuda 0 (10::nat))),
                                 Issue 1, Wait])"
    by blast
  from c1 c2 c3 c4 run p1 p2 run2 ni q1 q2 show ?thesis
    by (auto simp: in_flight_def)
qed

text \<open>
  C3. With an integer cap \<open>k\<close>, \<open>0 \<le> k < N\<close>, the iteration returns after handing
  out exactly \<open>k + 1\<close> batches: the device copies of the first \<open>k + 1\<close> source batches,
  in order. (The test \<open>count > stop_after\<close> runs after the count has been incremented
  and the batch yielded.)
\<close>

theorem cap_yields_k_plus_one:
  assumes "stop_after s = PyInt k" and "0 \<le> k" and "k < int (loader_len (loader s))"
  shows "\<exists>evs s'. DataPrefetcher_iter s = Inr (evs, s')
           \<and> length (yielded evs) = nat k + 1
           \<and> yielded evs = copies (stream s) (take (nat k + 1) (batches (loader s)))
           \<and> map host_batch (yielded evs) = map Some (take (nat k + 1) (batches (loader s)))"
proof -
  from iter_trace [of s] obtain s' where
    it: "DataPrefetcher_iter s = Inr (full_trace (PyInt k) (stream s) (batches (loader s)), s')"
    using assms(1) by auto
  from assms(2) have m: "nat (max 1 (k + 1)) = nat k + 1" by simp
  have y: "yielded (full_trace (PyInt k) (stream s) (batches (loader s)))
             = copies (stream s) (take (nat k + 1) (batches (loader s)))"
    by (simp only: yielded_full_cap m)
  from assms(2,3) have "nat k + 1 \<le> length (batches (loader s))"
    by (simp add: loader_len_def)
  then have len: "length (take (nat k + 1) (batches (loader s))) = nat k + 1"
    by simp
  have "length (yielded (full_trace (PyInt k) (stream s) (batches (loader s)))) = nat k + 1"
    and "map host_batch (yielded (full_trace (PyInt k) (stream s) (batches (loader s))))
           = map Some (take (nat k + 1) (batches (loader s)))"
    unfolding y by (simp_all only: host_batch_copies length_copies len)
  with it y show ?thesis by blast
qed

theorem cap_yields_k_plus_one_witness:
  "stop_after (DataPrefetcher_init (plain_loader [(1::nat, 10::nat), (2, 20), (3, 30)]) (PyInt 1))
     = PyInt 1
   \<and> (0::int) \<le> 1
   \<and> 1 < int (loader_len (loader
         (DataPrefetcher_init (plain_loader [(1::nat, 10::nat), (2, 20), (3, 30)]) (PyInt 1))))
   \<and> (\<exists>evs s'. DataPrefetcher_iter
                 (DataPrefetcher_init (plain_loader [(1::nat, 10::nat), (2, 20), (3, 30)]) (PyInt 1))
               = Inr (evs, s')
        \<and> length (yielded evs) = 2
        \<and> map host_batch (yielded evs) = [Some (1, 10), Some (2, 20)])"
proof -
  let ?s = "DataPrefetcher_init (plain_loader [(1::nat, 10::nat), (2, 20), (3, 30)]) (PyInt 1)"
  have h1: "stop_after ?s = PyInt 1"
    by (simp add: DataPrefetcher_init_def)
  have h2: "(0::int) \<le> 1" by simp
  have b: "batches (loader ?s) = [(1, 10), (2, 20), (3, 30)]"
    by (simp add: DataPrefetcher_init_def plain_loader_def)
  have h3: "1 < int (loader_len (loader ?s))"
    unfolding loader_len_def b by simp
  from cap_yields_k_plus_one [OF h1 h2 h3] obtain evs s' where
    "DataPrefetcher_iter ?s = Inr (evs, s')"
    "length (yielded evs) = nat 1 + 1"
    "map host_batch (yielded evs) = map Some (take (nat 1 + 1) (batches (loader ?s)))"
    by blast
  with h1 h3 b show ?thesis
    by (auto simp: numeral_2_eq_2)
qed

text \<open>
  C4. When the source iterator is exhausted, \<open>preload\<close> clears both slots and returns
  without an error. Every iteration returns normally, whatever the object's state and
  cap; when no integer cap is set it ends with both slots cleared and the source
  iterator exhausted.
\<close>

theorem exhaustion_is_normal_termination:
  "(loaditer s = Some [] \<longrightarrow>
      preload s = Inr ([], s\<lparr>next_input := None, next_target := None\<rparr>))
   \<and> (\<exists>evs s'. DataPrefetcher_iter s = Inr (evs, s'))
   \<and> (\<forall>evs s'. \<not> is_int (stop_after s) \<longrightarrow> DataPrefetcher_iter s = Inr (evs, s') \<longrightarrow>
         next_input s' = None \<and> next_target s' = None \<and> loaditer s' = Some [])"
proof -
  have a: "loaditer s = Some [] \<longrightarrow>
      preload s = Inr ([], s\<lparr>next_input := None, next_target := None\<rparr>)"
    by (simp add: preload_def)
  from iter_trace [of s] obtain s1 where
    s1: "DataPrefetcher_iter s
           = Inr (full_trace (stop_after s) (stream s) (batches (loader s)), s1)"
        "\<not> is_int (stop_after s) \<longrightarrow>
           s1 = s\<lparr>loaditer := Some [], next_input := None, next_target := None,
                  stream := stream s + length (batches (loader s))\<rparr>"
    by blast
  from s1(1) have b: "\<exists>evs s'. DataPrefetcher_iter s = Inr (evs, s')" by blast
  have c: "\<forall>evs s'. \<not> is_int (stop_after s) \<longrightarrow> DataPrefetcher_iter s = Inr (evs, s') \<longrightarrow>
         next_input s' = None \<and> next_target s' = None \<and> loaditer s' = Some []"
    using s1 by auto
  from a b c show ?thesis by blast
qed

theorem exhaustion_is_normal_termination_witness:
  "loaditer ((DataPrefetcher_init (plain_loader [(1::nat, 10::nat)]) PyNone)
              \<lparr>loaditer := Some [], next_input := Some (Cuda 0 1),
               next_target := Some (Cuda 0 10), stream := Suc 0\<rparr>) = Some []
   \<and> preload ((DataPrefetcher_init (plain_loader [(1::nat, 10::nat)]) PyNone)
              \<lparr>loaditer := Some [], next_input := Some (Cuda 0 1),
               next_target := Some (Cuda 0 10), stream := Suc 0\<rparr>)
       = Inr ([], (DataPrefetcher_init (plain_loader [(1, 10)]) PyNone)
                    \<lparr>loaditer := Some [], stream := Suc 0\<rparr>)
   \<and> \<not> is_int (stop_after (DataPrefetcher_init (plain_loader [(1::nat, 10::nat)]) PyNone))
   \<and> DataPrefetcher_iter (DataPrefetcher_init (plain_loader [(1::nat, 10::nat)]) PyNone)
       = Inr ([Issue 0, Wait, Yield (Cuda 0 1) (Some (Cuda 0 10))],
              (DataPrefetcher_init (plain_loader [(1, 10)]) PyNone)
                 \<lparr>loaditer := Some [], stream := Suc 0\<rparr>)
   \<and> next_input ((DataPrefetcher_init (plain_loader [(1::nat, 10::nat)]) PyNone)
                 \<lparr>loaditer := Some [], stream := Suc 0\<rparr>) = None"
proof -
  let ?a = "DataPrefetcher_init (plain_loader [(1::nat, 10::nat)]) PyNone"
  let ?s = "?a\<lparr>loaditer := Some [], next_input := Some (Cuda 0 1),
               next_target := Some (Cuda 0 10), stream := Suc 0\<rparr>"
  have h: "loaditer ?s = Some []" by simp
  have e: "?s\<lparr>next_input := None, next_target := None\<rparr> = ?a\<lparr>loaditer := Some [], stream := Suc 0\<rparr>"
    by (simp add: DataPrefetcher_init_def)
  have ni: "\<not> is_int (stop_after ?a)" by (simp add: DataPrefetcher_init_def)
  have run: "DataPrefetcher_iter ?a
       = Inr ([Issue 0, Wait, Yield (Cuda 0 1) (Some (Cuda 0 10))],
              ?a\<lparr>loaditer := Some [], stream := Suc 0\<rparr>)"
    by code_simp
  from exhaustion_is_normal_termination [of ?s] h
  have p: "preload ?s = Inr ([], ?s\<lparr>next_input := None, next_target := None\<rparr>)"
    by blast
  from exhaustion_is_normal_termination [of ?a] ni run
  have n: "next_input (?a\<lparr>loaditer := Some [], stream := Suc 0\<rparr>) = None"
    by blast
  from h p e ni run n show ?thesis by (simp only:) simp
qed

text \<open>
  C8. The reported length of a prefetcher is the length of its loader, with any cap or
  none, before and after an iteration; the number of batches an iteration hands out never
  exceeds it.
\<close>

theorem len_is_loader_len:
  "DataPrefetcher_len (DataPrefetcher_init ld cap) = loader_len ld
   \<and> (\<exists>evs s'. DataPrefetcher_iter (DataPrefetcher_init ld cap) = Inr (evs, s')
         \<and> DataPrefetcher_len s' = loader_len ld
         \<and> length (yielded evs) \<le> DataPrefetcher_len s')"
proof -
  let ?s = "DataPrefetcher_init ld cap"
  have l: "loader ?s = ld" by (simp add: DataPrefetcher_init_def)
  from iter_trace [of ?s] obtain s' where
    s': "DataPrefetcher_iter ?s = Inr (full_trace (stop_after ?s) (stream ?s) (batches ld), s')"
        "loader s' = ld"
    unfolding l by blast
  have "length (yielded (full_trace (stop_after ?s) (stream ?s) (batches ld))) \<le> loader_len ld"
    unfolding loader_len_def by (rule yielded_full_le)
  with s' l show ?thesis
    unfolding DataPrefetcher_len_def by auto
qed

text \<open>
  C10. The cap test can only succeed when \<open>stop_after\<close> is an \<open>int\<close>. With \<open>None\<close>,
  a \<open>bool\<close> or any other non-int value it is false at every count, and the iteration
  runs until the source is exhausted, handing out every batch.
\<close>

theorem non_int_cap_never_stops:
  assumes "\<not> is_int (stop_after s)"
  shows "(\<forall>c. \<not> cap_reached (stop_after s) c)
       \<and> (\<exists>evs s'. DataPrefetcher_iter s = Inr (evs, s')
             \<and> yielded evs = copies (stream s) (batches (loader s))
             \<and> map host_batch (yielded evs) = map Some (batches (loader s))
             \<and> next_input s' = None \<and> loaditer s' = Some [])"
proof -
  from assms have a: "\<forall>c. \<not> cap_reached (stop_after s) c"
    by (simp add: cap_reached_not_int)
  from iter_trace [of s] assms obtain s' where
    s': "DataPrefetcher_iter s
           = Inr (full_trace (stop_after s) (stream s) (batches (loader s)), s')"
        "s' = s\<lparr>loaditer := Some [], next_input := None, next_target := None,
                 stream := stream s + length (batches (loader s))\<rparr>"
    by blast
  have y: "yielded (full_trace (stop_after s) (stream s) (batches (loader s)))
             = copies (stream s) (batches (loader s))"
    using assms by (rule yielded_full_nocap)
  have "next_input s' = None" "loaditer s' = Some []"
    unfolding s'(2) by simp_all
  with s'(1) y a show ?thesis
    by (simp add: host_batch_copies)
qed

theorem non_int_cap_never_stops_witness:
  "\<not> is_int (stop_after (DataPrefetcher_init (plain_loader [(1::nat, 10::nat), (2, 20)]) (PyBool True)))
   \<and> \<not> cap_reached (PyBool True) 5
   \<and> (\<exists>evs s'. DataPrefetcher_iter
                 (DataPrefetcher_init (plain_loader [(1::nat, 10::nat), (2, 20)]) (PyBool True))
               = Inr (evs, s')
         \<and> map host_batch (yielded evs) = [Some (1, 10), Some (2, 20)]
         \<and> next_input s' = None)"
proof -
  let ?s = "DataPrefetcher_init (plain_loader [(1::nat, 10::nat), (2, 20)]) (PyBool True)"
  have h: "\<not> is_int (stop_after ?s)" by (simp add: DataPrefetcher_init_def)
  have b: "batches (loader ?s) = [(1, 10), (2, 20)]"
    by (simp add: DataPrefetcher_init_def plain_loader_def)
  from non_int_cap_never_stops [OF h] obtain evs s' where
    "DataPrefetcher_iter ?s = Inr (evs, s')"
    "map host_batch (yielded evs) = map Some (batches (loader ?s))"
    "next_input s' = None"
    by blast
  with h b show ?thesis by auto
qed

text \<open>
  C6, as stated, fails: the same prefetcher object, iterated a second time after its
  first iteration has ended by exhaustion, hands out the whole batch sequence again
  (\<open>__iter__\<close> takes a fresh source iterator each time it is called).
\<close>

theorem same_prefetcher_iterates_again:
  "iterate_twice (DataPrefetcher_init (plain_loader [(1::nat, 10::nat), (2, 20)]) PyNone)
     = Inr ([(Cuda 0 1, Some (Cuda 0 10)), (Cuda 1 2, Some (Cuda 1 20))],
            [(Cuda 2 1, Some (Cuda 2 10)), (Cuda 3 2, Some (Cuda 3 20))])"
  by code_simp

text \<open>
  C6, amended. After an iteration has ended by source exhaustion, it cannot be resumed
  from that point: \<open>preload\<close> finds the source iterator exhausted and changes nothing,
  and the loop hands out nothing more. The batch sequence is produced again by a new
  \<open>__iter__\<close> on the same object, which takes a fresh source iterator; no new
  prefetcher is needed.
\<close>

theorem exhausted_iteration_not_resumable:
  assumes "\<not> is_int (stop_after s)" and "DataPrefetcher_iter s = Inr (evs, s')"
  shows "preload s' = Inr ([], s')
       \<and> iter_loop s' c = Inr ([], s')
       \<and> (\<exists>evs2 s''. DataPrefetcher_iter s' = Inr (evs2, s'')
             \<and> map host_batch (yielded evs2) = map Some (batches (loader s)))"
proof -
  from iter_trace [of s] assms have
    s': "s' = s\<lparr>loaditer := Some [], next_input := None, next_target := None,
                 stream := stream s + length (batches (loader s))\<rparr>"
    by auto
  have a: "preload s' = Inr ([], s')"
    unfolding s' by (simp add: preload_def)
  have b: "iter_loop s' c = Inr ([], s')"
    by (rule iter_loop_done) (simp add: s')
  have ni: "\<not> is_int (stop_after s')" and l: "loader s' = loader s"
    using assms(1) by (simp_all add: s')
  from iter_trace [of s'] obtain s'' where
    it: "DataPrefetcher_iter s'
           = Inr (full_trace (stop_after s') (stream s') (batches (loader s')), s'')"
    by blast
  have "map host_batch (yielded (full_trace (stop_after s') (stream s') (batches (loader s'))))
          = map Some (batches (loader s))"
    using ni by (simp add: yielded_full_nocap host_batch_copies l)
  with it have "\<exists>evs2 s''. DataPrefetcher_iter s' = Inr (evs2, s'')
             \<and> map host_batch (yielded evs2) = map Some (batches (loader s))"
    by blast
  with a b show ?thesis by blast
qed

theorem exhausted_iteration_not_resumable_witness:
  "\<not> is_int (stop_after (DataPrefetcher_init (plain_loader [(1::nat, 10::nat)]) PyNone))
   \<and> DataPrefetcher_iter (DataPrefetcher_init (plain_loader [(1::nat, 10::nat)]) PyNone)
       = Inr ([Issue 0, Wait, Yield (Cuda 0 1) (Some (Cuda 0 10))],
              (DataPrefetcher_init (plain_loader [(1, 10)]) PyNone)
                 \<lparr>loaditer := Some [], stream := Suc 0\<rparr>)
   \<and> iter_loop ((DataPrefetcher_init (plain_loader [(1::nat, 10::nat)]) PyNone)
                 \<lparr>loaditer := Some [], stream := Suc 0\<rparr>) 1
       = Inr ([], (DataPrefetcher_init (plain_loader [(1, 10)]) PyNone)
                 \<lparr>loaditer := Some [], stream := Suc 0\<rparr>)
   \<and> (\<exists>evs2 s''. DataPrefetcher_iter
                    ((DataPrefetcher_init (plain_loader [(1::nat, 10::nat)]) PyNone)
                       \<lparr>loaditer := Some [], stream := Suc 0\<rparr>) = Inr (evs2, s'')
         \<and> map host_batch (yielded evs2) = [Some (1, 10)])"
proof -
  let ?a = "DataPrefetcher_init (plain_loader [(1::nat, 10::nat)]) PyNone"
  let ?b = "?a\<lparr>loaditer := Some [], stream := Suc 0\<rparr>"
  have ni: "\<not> is_int (stop_after ?a)" by (simp add: DataPrefetcher_init_def)
  have run: "DataPrefetcher_iter ?a
       = Inr ([Issue 0, Wait, Yield (Cuda 0 1) (Some (Cuda 0 10))], ?b)"
    by code_simp
  have b: "batches (loader ?a) = [(1, 10)]"
    by (simp add: DataPrefetcher_init_def plain_loader_def)
  from exhausted_iteration_not_resumable [OF ni run, of 1]
  have "iter_loop ?b 1 = Inr ([], ?b)"
    and "\<exists>evs2 s''. DataPrefetcher_iter ?b = Inr (evs2, s'')
             \<and> map host_batch (yielded evs2) = map Some (batches (loader ?a))"
    by blast+
  with ni run b show ?thesis by (simp only:) simp
qed

section \<open>The log holds stamped lines only\<close>

















section \<open>The steps of a run of the driver\<close>

lemma stage_steps_append: "stage_steps (xs @ ys) = stage_steps xs @ stage_steps ys"
  by (induction xs rule: stage_steps.induct) simp_all

lemma stage_steps_fit:
  "stage_steps (map Effect (fit a name l cl smp wd clr) :: ('i, 't) action list)
     = [Inr \<lparr>lr = l, n_cycle = 1, cycle_len = cl, fit_sampler = smp, wds = wd,
        use_clr = clr, loss_scale = 1024,
        sargs = snd (save_args a name (save_dir a))\<rparr>]"
  by (simp add: fit_def save_args_def)

lemma stage_steps_model_dir:
  "stage_steps (map Effect (update_model_dir d) :: ('i, 't) action list) = []"
  by (simp add: update_model_dir_def)

lemma stage_steps_half:
  "stage_steps (map Effect (if b then [Half] else []) :: ('i, 't) action list) = []"
  by simp

lemma stage_steps_stages:
  "stage_steps (stages read a) =
     [Inl (fst (torch_loader read a (data a @ ''-sz/160'') 128 256 (8 / 100))),
      Inr (stage_fit a ''1'' (3 / 100)
             (snd (torch_loader read a (data a @ ''-sz/160'') 128 256 (8 / 100)))),
      Inl (fst (torch_loader read a (data a @ ''-sz/320'') 128 256 (8 / 100))),
      Inr (stage_fit a ''3'' (1 / 10)
             (snd (torch_loader read a (data a @ ''-sz/320'') 128 256 (8 / 100)))),
      Inl (fst (torch_loader read a (data a) 128 256 (8 / 100))),
      Inr (stage_fit a ''3'' (1 / 10)
             (snd (torch_loader read a (data a) 128 256 (8 / 100))))]"
  unfolding stages_def Let_def split_beta stage_fit_def
  by (simp only: stage_steps_append map_append stage_steps_fit stage_steps_model_dir
        stage_steps_half stage_steps.simps list.map append_Cons append_Nil append_Nil2)

lemma main_runs:
  assumes "world_size a0 \<le> 1 \<or> 0 < device_count e" and "fp16 a0 \<longrightarrow> cudnn_enabled e"
  shows "main e read a0 =
           (map Effect ((if 1 < world_size a0
                         then [SetDevice (rank a0 mod int (device_count e)),
                               InitProcessGroup (dist_backend a0) (dist_url a0) (world_size a0)]
                         else [])
                        @ [CreateModel (arch a0)]
                        @ (if 1 < world_size a0 then [WrapDDP] else []))
            @ stages read (setup_args e a0), None)"
  using assms by (auto simp: main_def init_distributed_def setup_args_def)

lemma stage_steps_main:
  assumes "world_size a0 \<le> 1 \<or> 0 < device_count e" and "fp16 a0 \<longrightarrow> cudnn_enabled e"
  shows "stage_steps (fst (main e read a0)) = stage_steps (stages read (setup_args e a0))"
  unfolding main_runs [OF assms] by (simp add: stage_steps_append)

lemma fit_calls_steps: "fit_calls xs = [c. Inr c \<leftarrow> stage_steps xs]"
  by (induction xs rule: stage_steps.induct) simp_all

lemma stage_data_steps: "stage_data xs = [d. Inl d \<leftarrow> stage_steps xs]"
  by (induction xs rule: stage_steps.induct) simp_all

lemma torch_loader_data:
  "path (fst (torch_loader read a p sz bs ms)) = p
   \<and> input_sizes (fst (torch_loader read a p sz bs ms)) = [sz, sz, sz]
   \<and> fresh_prefetcher (trn_dl (fst (torch_loader read a p sz bs ms)))
   \<and> fresh_prefetcher (val_dl (fst (torch_loader read a p sz bs ms)))
   \<and> (\<exists>q. aug_dl (fst (torch_loader read a p sz bs ms)) = Some q \<and> fresh_prefetcher q)"
  by (simp add: torch_loader_def Let_def TorchModelData_def DataPrefetcher_init_def
        DataLoader_def input_sizes_def fresh_prefetcher_def List.map_filter_simps)

section \<open>The stages of the driver\<close>

text \<open>
  C5, as stated, fails: the crop size of every stage is 128. The stages read the folders
  \<open>-sz/160\<close>, \<open>-sz/320\<close> and the full data set, and all three crop to 128, so the
  input resolution does not increase from stage to stage.
\<close>

theorem every_stage_crops_to_128:
  "map input_sizes
     (stage_data (fst (main \<lparr>cudnn_enabled = True, device_count = 1\<rparr> no_batches example_args)))
   = [[128, 128, 128], [128, 128, 128], [128, 128, 128]]
   \<and> map path
     (stage_data (fst (main \<lparr>cudnn_enabled = True, device_count = 1\<rparr> no_batches example_args)))
   = [''/data/imagenet-sz/160'', ''/data/imagenet-sz/320'', ''/data/imagenet'']"
  by code_simp

text \<open>
  C5, amended. When the set-up and the fp16 check pass, the driver runs three stages in
  sequence, over the folders \<open><data>-sz/160\<close>, \<open><data>-sz/320\<close> and \<open><data>\<close>, all
  three with crop size 128 and batch size 256. Each stage builds its three loaders and
  three new prefetchers, hands them to the learner, and makes exactly one fit call of one
  cycle of length 1; the learning rate is 0.03 in the first stage and 0.1 in the other
  two, the weight decay 2e-5 in all three.
\<close>

theorem three_stages_one_fit_each:
  assumes "world_size a0 \<le> 1 \<or> 0 < device_count e" and "fp16 a0 \<longrightarrow> cudnn_enabled e"
  shows "snd (main e read a0) = None
       \<and> stage_steps (fst (main e read a0)) =
           [Inl (fst (torch_loader read (setup_args e a0) (data a0 @ ''-sz/160'') 128 256 (8 / 100))),
            Inr (stage_fit (setup_args e a0) ''1'' (3 / 100)
                   (snd (torch_loader read (setup_args e a0) (data a0 @ ''-sz/160'') 128 256 (8 / 100)))),
            Inl (fst (torch_loader read (setup_args e a0) (data a0 @ ''-sz/320'') 128 256 (8 / 100))),
            Inr (stage_fit (setup_args e a0) ''3'' (1 / 10)
                   (snd (torch_loader read (setup_args e a0) (data a0 @ ''-sz/320'') 128 256 (8 / 100)))),
            Inl (fst (torch_loader read (setup_args e a0) (data a0) 128 256 (8 / 100))),
            Inr (stage_fit (setup_args e a0) ''3'' (1 / 10)
                   (snd (torch_loader read (setup_args e a0) (data a0) 128 256 (8 / 100))))]
       \<and> map path (stage_data (fst (main e read a0)))
           = [data a0 @ ''-sz/160'', data a0 @ ''-sz/320'', data a0]
       \<and> map input_sizes (stage_data (fst (main e read a0)))
           = [[128, 128, 128], [128, 128, 128], [128, 128, 128]]
       \<and> (\<forall>d \<in> set (stage_data (fst (main e read a0))).
             fresh_prefetcher (trn_dl d) \<and> fresh_prefetcher (val_dl d)
             \<and> (\<exists>q. aug_dl d = Some q \<and> fresh_prefetcher q))
       \<and> map (\<lambda>c. (lr c, wds c, n_cycle c, cycle_len c)) (fit_calls (fst (main e read a0)))
           = [(3 / 100, 2 / 100000, 1, 1), (1 / 10, 2 / 100000, 1, 1), (1 / 10, 2 / 100000, 1, 1)]"
proof -
  let ?a = "setup_args e a0"
  have d: "data ?a = data a0" by (simp add: setup_args_def)
  have ok: "snd (main e read a0) = None"
    unfolding main_runs [OF assms] by simp
  have steps: "stage_steps (fst (main e read a0)) =
           [Inl (fst (torch_loader read ?a (data a0 @ ''-sz/160'') 128 256 (8 / 100))),
            Inr (stage_fit ?a ''1'' (3 / 100)
                   (snd (torch_loader read ?a (data a0 @ ''-sz/160'') 128 256 (8 / 100)))),
            Inl (fst (torch_loader read ?a (data a0 @ ''-sz/320'') 128 256 (8 / 100))),
            Inr (stage_fit ?a ''3'' (1 / 10)
                   (snd (torch_loader read ?a (data a0 @ ''-sz/320'') 128 256 (8 / 100)))),
            Inl (fst (torch_loader read ?a (data a0) 128 256 (8 / 100))),
            Inr (stage_fit ?a ''3'' (1 / 10)
                   (snd (torch_loader read ?a (data a0) 128 256 (8 / 100))))]"
    unfolding stage_steps_main [OF assms] stage_steps_stages d ..
  have sd: "stage_data (fst (main e read a0)) =
           [fst (torch_loader read ?a (data a0 @ ''-sz/160'') 128 256 (8 / 100)),
            fst (torch_loader read ?a (data a0 @ ''-sz/320'') 128 256 (8 / 100)),
            fst (torch_loader read ?a (data a0) 128 256 (8 / 100))]"
    unfolding stage_data_steps steps by simp
  have fc: "fit_calls (fst (main e read a0)) =
           [stage_fit ?a ''1'' (3 / 100)
              (snd (torch_loader read ?a (data a0 @ ''-sz/160'') 128 256 (8 / 100))),
            stage_fit ?a ''3'' (1 / 10)
              (snd (torch_loader read ?a (data a0 @ ''-sz/320'') 128 256 (8 / 100))),
            stage_fit ?a ''3'' (1 / 10)
              (snd (torch_loader read ?a (data a0) 128 256 (8 / 100)))]"
    unfolding fit_calls_steps steps by simp
  have p: "map path (stage_data (fst (main e read a0)))
           = [data a0 @ ''-sz/160'', data a0 @ ''-sz/320'', data a0]"
    unfolding sd by (simp add: torch_loader_data)
  have s: "map input_sizes (stage_data (fst (main e read a0)))
           = [[128, 128, 128], [128, 128, 128], [128, 128, 128]]"
    unfolding sd by (simp add: torch_loader_data)
  have f: "\<forall>d \<in> set (stage_data (fst (main e read a0))).
             fresh_prefetcher (trn_dl d) \<and> fresh_prefetcher (val_dl d)
             \<and> (\<exists>q. aug_dl d = Some q \<and> fresh_prefetcher q)"
    unfolding sd using torch_loader_data [of read ?a] by simp
  have l: "map (\<lambda>c. (lr c, wds c, n_cycle c, cycle_len c)) (fit_calls (fst (main e read a0)))
           = [(3 / 100, 2 / 100000, 1, 1), (1 / 10, 2 / 100000, 1, 1), (1 / 10, 2 / 100000, 1, 1)]"
    unfolding fc by (simp add: stage_fit_def)
  from ok steps p s f l show ?thesis by (simp only:)
qed

theorem three_stages_one_fit_each_witness:
  "(world_size example_args \<le> 1 \<or> 0 < device_count \<lparr>cudnn_enabled = True, device_count = 1\<rparr>)
   \<and> fp16 example_args \<and> cudnn_enabled \<lparr>cudnn_enabled = True, device_count = 1\<rparr>
   \<and> snd (main \<lparr>cudnn_enabled = True, device_count = 1\<rparr> no_batches example_args) = None
   \<and> map path (stage_data
         (fst (main \<lparr>cudnn_enabled = True, device_count = 1\<rparr> no_batches example_args)))
       = [''/data/imagenet-sz/160'', ''/data/imagenet-sz/320'', ''/data/imagenet'']
   \<and> map (\<lambda>c. (lr c, wds c, n_cycle c, cycle_len c))
         (fit_calls (fst (main \<lparr>cudnn_enabled = True, device_count = 1\<rparr> no_batches example_args)))
       = [(3 / 100, 2 / 100000, 1, 1), (1 / 10, 2 / 100000, 1, 1), (1 / 10, 2 / 100000, 1, 1)]"
proof -
  let ?e = "\<lparr>cudnn_enabled = True, device_count = 1\<rparr>"
  have h1: "world_size example_args \<le> 1 \<or> 0 < device_count ?e"
    by (simp add: example_args_def)
  have f: "fp16 example_args" and c: "cudnn_enabled ?e"
    by (simp_all add: example_args_def)
  then have h2: "fp16 example_args \<longrightarrow> cudnn_enabled ?e"
    by simp
  have d: "data example_args = ''/data/imagenet''"
    by (simp add: example_args_def)
  from three_stages_one_fit_each [OF h1 h2, of no_batches] h1 f c show ?thesis
    unfolding d by simp
qed

text \<open>
  C7, as stated, fails: with \<open>--fp16\<close> set, cudnn not enabled, \<open>--world-size 2\<close> and
  no CUDA device, the run ends with \<open>ZeroDivisionError\<close> at line 243
  (\<open>args.rank % torch.cuda.device_count()\<close>), before the assertion is reached.
\<close>

theorem fp16_check_not_reached:
  "fp16 (example_args\<lparr>world_size := 2\<rparr>)
   \<and> \<not> cudnn_enabled \<lparr>cudnn_enabled = False, device_count = 0\<rparr>
   \<and> main \<lparr>cudnn_enabled = False, device_count = 0\<rparr> no_batches (example_args\<lparr>world_size := 2\<rparr>)
       = ([], Some ZeroDivisionError)"
  by (simp add: example_args_def main_def init_distributed_def)

text \<open>
  C7, amended. If \<open>--fp16\<close> is set and cudnn is not enabled, the run fails before any
  model, loader or fit exists: with the assertion error when the distributed set-up
  before the check completes (one process, or at least one CUDA device), having done
  nothing but that set-up; with \<open>ZeroDivisionError\<close> when several processes are asked
  for and there is no CUDA device. If cudnn is enabled and the set-up completes, the
  check passes and the three fits run.
\<close>

theorem fp16_requires_cudnn:
  "(fp16 a0 \<and> \<not> cudnn_enabled e \<and> (world_size a0 \<le> 1 \<or> 0 < device_count e) \<longrightarrow>
      snd (main e read a0) = Some AssertionError
      \<and> list_all is_setup (fst (main e read a0))
      \<and> fit_calls (fst (main e read a0)) = []
      \<and> stage_data (fst (main e read a0)) = [])
   \<and> (fp16 a0 \<and> \<not> cudnn_enabled e \<and> 1 < world_size a0 \<and> device_count e = 0 \<longrightarrow>
      main e read a0 = ([], Some ZeroDivisionError))
   \<and> (cudnn_enabled e \<and> (world_size a0 \<le> 1 \<or> 0 < device_count e) \<longrightarrow>
      snd (main e read a0) = None \<and> length (fit_calls (fst (main e read a0))) = 3)"
proof -
  have a: "fp16 a0 \<and> \<not> cudnn_enabled e \<and> (world_size a0 \<le> 1 \<or> 0 < device_count e) \<longrightarrow>
      snd (main e read a0) = Some AssertionError
      \<and> list_all is_setup (fst (main e read a0))
      \<and> fit_calls (fst (main e read a0)) = []
      \<and> stage_data (fst (main e read a0)) = []"
    by (auto simp: main_def init_distributed_def)
  have b: "fp16 a0 \<and> \<not> cudnn_enabled e \<and> 1 < world_size a0 \<and> device_count e = 0 \<longrightarrow>
      main e read a0 = ([], Some ZeroDivisionError)"
    by (simp add: main_def init_distributed_def)
  have c: "cudnn_enabled e \<and> (world_size a0 \<le> 1 \<or> 0 < device_count e) \<longrightarrow>
      snd (main e read a0) = None \<and> length (fit_calls (fst (main e read a0))) = 3"
  proof
    assume h: "cudnn_enabled e \<and> (world_size a0 \<le> 1 \<or> 0 < device_count e)"
    then have h1: "world_size a0 \<le> 1 \<or> 0 < device_count e" and h2: "fp16 a0 \<longrightarrow> cudnn_enabled e"
      by simp_all
    have "snd (main e read a0) = None"
      unfolding main_runs [OF h1 h2] by simp
    moreover have "length (fit_calls (fst (main e read a0))) = 3"
      unfolding fit_calls_steps stage_steps_main [OF h1 h2] stage_steps_stages by simp
    ultimately show "snd (main e read a0) = None \<and> length (fit_calls (fst (main e read a0))) = 3"
      by simp
  qed
  from a b c show ?thesis by (simp only:)
qed

theorem fp16_requires_cudnn_witness:
  "(fp16 (example_args\<lparr>world_size := 2, rank := 3\<rparr>)
    \<and> \<not> cudnn_enabled \<lparr>cudnn_enabled = False, device_count = 2\<rparr>
    \<and> (world_size (example_args\<lparr>world_size := 2, rank := 3\<rparr>) \<le> 1
        \<or> 0 < device_count \<lparr>cudnn_enabled = False, device_count = 2\<rparr>))
   \<and> main \<lparr>cudnn_enabled = False, device_count = 2\<rparr> no_batches
        (example_args\<lparr>world_size := 2, rank := 3\<rparr>)
       = ([Effect (SetDevice 1), Effect (InitProcessGroup ''nccl'' ''file://sync.file'' 2)],
          Some AssertionError)
   \<and> (fp16 (example_args\<lparr>world_size := 2\<rparr>)
       \<and> \<not> cudnn_enabled \<lparr>cudnn_enabled = False, device_count = 0\<rparr>
       \<and> 1 < world_size (example_args\<lparr>world_size := 2\<rparr>)
       \<and> device_count \<lparr>cudnn_enabled = False, device_count = 0\<rparr> = 0)
   \<and> (cudnn_enabled \<lparr>cudnn_enabled = True, device_count = 1\<rparr>
       \<and> (world_size example_args \<le> 1
           \<or> 0 < device_count \<lparr>cudnn_enabled = True, device_count = 1\<rparr>))
   \<and> snd (main \<lparr>cudnn_enabled = True, device_count = 1\<rparr> no_batches example_args) = None
   \<and> length (fit_calls
        (fst (main \<lparr>cudnn_enabled = True, device_count = 1\<rparr> no_batches example_args))) = 3"
proof -
  let ?a1 = "example_args\<lparr>world_size := 2, rank := 3\<rparr>"
  let ?e1 = "\<lparr>cudnn_enabled = False, device_count = 2\<rparr>"
  let ?a2 = "example_args\<lparr>world_size := 2\<rparr>"
  let ?e2 = "\<lparr>cudnn_enabled = False, device_count = 0\<rparr>"
  let ?e3 = "\<lparr>cudnn_enabled = True, device_count = 1\<rparr>"
  have h1: "fp16 ?a1 \<and> \<not> cudnn_enabled ?e1 \<and> (world_size ?a1 \<le> 1 \<or> 0 < device_count ?e1)"
    by (simp add: example_args_def)
  have h2: "fp16 ?a2 \<and> \<not> cudnn_enabled ?e2 \<and> 1 < world_size ?a2 \<and> device_count ?e2 = 0"
    by (simp add: example_args_def)
  have h3: "cudnn_enabled ?e3 \<and> (world_size example_args \<le> 1 \<or> 0 < device_count ?e3)"
    by (simp add: example_args_def)
  have r1: "main ?e1 no_batches ?a1
       = ([Effect (SetDevice 1), Effect (InitProcessGroup ''nccl'' ''file://sync.file'' 2)],
          Some AssertionError)"
    by (simp add: example_args_def main_def init_distributed_def)
  from fp16_requires_cudnn [of ?a1 ?e1 no_batches] h1
  have c1: "snd (main ?e1 no_batches ?a1) = Some AssertionError" by blast
  from fp16_requires_cudnn [of ?a2 ?e2 no_batches] h2
  have c2: "main ?e2 no_batches ?a2 = ([], Some ZeroDivisionError)" by blast
  from fp16_requires_cudnn [of example_args ?e3 no_batches] h3
  have c3: "snd (main ?e3 no_batches example_args) = None
            \<and> length (fit_calls (fst (main ?e3 no_batches example_args))) = 3"
    by blast
  from h1 h2 h3 r1 c1 c2 c3 show ?thesis by simp
qed

section \<open>The logging sink\<close>



end
